theory Spec2Isabelle
  imports Main
begin

section \<open>JavaScript values\<close>

text \<open>
  The values that flow through \<^verbatim>\<open>st_theresa_medical_center.js\<close>: what a JSON body parses
  to, plus \<^verbatim>\<open>undefined\<close>. Numbers are integers here (no claim computes with them).
  An object is the list of its own properties.
\<close>

datatype jsval =
    JUndefined
  | JNull
  | JBool bool
  | JNum int
  | JStr string
  | JArr "jsval list"
  | JObj "(string \<times> jsval) list"

text \<open>The \<^verbatim>\<open>typeof\<close> operator; \<^verbatim>\<open>typeof null\<close> is \<^verbatim>\<open>'object'\<close>, and so is an array's.\<close>

fun typeof :: "jsval \<Rightarrow> string" where
  "typeof JUndefined = ''undefined''"
| "typeof JNull = ''object''"
| "typeof (JBool b) = ''boolean''"
| "typeof (JNum n) = ''number''"
| "typeof (JStr s) = ''string''"
| "typeof (JArr xs) = ''object''"
| "typeof (JObj ps) = ''object''"

text \<open>The exception thrown by a property read on \<^verbatim>\<open>null\<close> or \<^verbatim>\<open>undefined\<close>, and by
  a call of something that is not a function.\<close>

definition TypeError :: jsval where
  "TypeError = JObj [(''name'', JStr ''TypeError'')]"

text \<open>
  The property read \<^verbatim>\<open>v.k\<close> on a response, for the name \<^verbatim>\<open>AjaxHandler\<close> reads
  (\<^verbatim>\<open>success\<close>): it is no array index and no property inherited from a prototype, so
  only an object's own properties can define it. \<open>Inl\<close> is the exception thrown.
\<close>

fun get_prop :: "jsval \<Rightarrow> string \<Rightarrow> jsval + jsval" where
  "get_prop JUndefined k = Inl TypeError"
| "get_prop JNull k = Inl TypeError"
| "get_prop (JObj ps) k = Inr (case map_of ps k of Some v \<Rightarrow> v | None \<Rightarrow> JUndefined)"
| "get_prop v k = Inr JUndefined"

section \<open>AjaxHandler\<close>

subsection \<open>Construction and the CSRF token\<close>

record handler_options =
  o_debug :: "bool option"
  o_defaultRetries :: "int option"
  o_defaultDelay :: "int option"

record ajax_handler =
  debug :: bool
  defaultRetries :: int
  defaultDelay :: int
  csrfToken :: string

text \<open>\<^verbatim>\<open>String.prototype.split\<close> on a one-character separator: the empty string gives one
  empty piece.\<close>

fun splitStr :: "char \<Rightarrow> string \<Rightarrow> string list" where
  "splitStr sep [] = [[]]"
| "splitStr sep (c # cs) =
     (if c = sep then [] # splitStr sep cs
      else (case splitStr sep cs of [] \<Rightarrow> [[c]] | w # ws \<Rightarrow> (c # w) # ws))"

text \<open>
  A string is the sequence of the bytes of its UTF-8 encoding. \<open>white_space\<close> lists the
  encodings of the code points \<^verbatim>\<open>String.prototype.trim\<close> removes: the white space and
  line terminators of ECMAScript (tab, line feed, vertical tab, form feed, carriage
  return, space, U+00A0, U+1680, U+2000 to U+200A, U+2028, U+2029, U+202F, U+205F, U+3000,
  U+FEFF).
\<close>

definition white_space :: "string list" where
  "white_space =
     [[CHR 0x09], [CHR 0x0A], [CHR 0x0B], [CHR 0x0C], [CHR 0x0D], [CHR 0x20],
      [CHR 0xC2, CHR 0xA0], [CHR 0xE1, CHR 0x9A, CHR 0x80],
      [CHR 0xE2, CHR 0x80, CHR 0x80], [CHR 0xE2, CHR 0x80, CHR 0x81],
      [CHR 0xE2, CHR 0x80, CHR 0x82], [CHR 0xE2, CHR 0x80, CHR 0x83],
      [CHR 0xE2, CHR 0x80, CHR 0x84], [CHR 0xE2, CHR 0x80, CHR 0x85],
      [CHR 0xE2, CHR 0x80, CHR 0x86], [CHR 0xE2, CHR 0x80, CHR 0x87],
      [CHR 0xE2, CHR 0x80, CHR 0x88], [CHR 0xE2, CHR 0x80, CHR 0x89],
      [CHR 0xE2, CHR 0x80, CHR 0x8A], [CHR 0xE2, CHR 0x80, CHR 0xA8],
      [CHR 0xE2, CHR 0x80, CHR 0xA9], [CHR 0xE2, CHR 0x80, CHR 0xAF],
      [CHR 0xE2, CHR 0x81, CHR 0x9F], [CHR 0xE3, CHR 0x80, CHR 0x80],
      [CHR 0xEF, CHR 0xBB, CHR 0xBF]]"

text \<open>\<^verbatim>\<open>trim\<close> removes the white space at the start, then the white space at the end.\<close>

function trimStart :: "string \<Rightarrow> string" where
  "trimStart s =
     (case List.find (\<lambda>w. take (length w) s = w) white_space of
        None \<Rightarrow> s
      | Some w \<Rightarrow> trimStart (drop (length w) s))"
  by pat_completeness auto
termination
proof (relation "measure length")
  fix s w
  assume "List.find (\<lambda>w. take (length w) s = w) white_space = Some w"
  then have "take (length w) s = w" and "w \<in> set white_space"
    by (auto simp: find_Some_iff)
  moreover from \<open>w \<in> set white_space\<close> have "w \<noteq> []"
    by (auto simp: white_space_def)
  ultimately have "s \<noteq> []" and "0 < length w"
    by auto
  then show "(drop (length w) s, s) \<in> measure length" by simp
qed simp

declare trimStart.simps [simp del]

function trimEnd :: "string \<Rightarrow> string" where
  "trimEnd s =
     (case List.find (\<lambda>w. length w \<le> length s \<and> drop (length s - length w) s = w) white_space of
        None \<Rightarrow> s
      | Some w \<Rightarrow> trimEnd (take (length s - length w) s))"
  by pat_completeness auto
termination
proof (relation "measure length")
  fix s w
  assume "List.find (\<lambda>w. length w \<le> length s \<and> drop (length s - length w) s = w) white_space = Some w"
  then have "length w \<le> length s" and "w \<in> set white_space"
    by (auto simp: find_Some_iff)
  moreover from \<open>w \<in> set white_space\<close> have "w \<noteq> []"
    by (auto simp: white_space_def)
  ultimately have "0 < length s" and "0 < length w"
    by auto
  then show "(take (length s - length w) s, s) \<in> measure length" by simp
qed simp

declare trimEnd.simps [simp del]

definition trim :: "string \<Rightarrow> string" where
  "trim s = trimEnd (trimStart s)"

text \<open>The \<^verbatim>\<open>for\<close> loop of \<^verbatim>\<open>getCsrfToken\<close>: the first piece that, trimmed, starts with
  \<open>name\<close> (\<^verbatim>\<open>c.indexOf(name) === 0\<close>) gives the rest of that piece; no such piece gives
  the empty string.\<close>

fun cookie_loop :: "string \<Rightarrow> string list \<Rightarrow> string" where
  "cookie_loop name [] = []"
| "cookie_loop name (x # cookies) =
     (let c = trim x
      in if take (length name) c = name then drop (length name) c
         else cookie_loop name cookies)"

text \<open>
  \<^verbatim>\<open>decodeURIComponent\<close>, as ECMAScript defines it: every \<^verbatim>\<open>%XX\<close> escape becomes its
  byte, the escapes of one code point together, and it throws a \<^verbatim>\<open>URIError\<close> on a
  \<^verbatim>\<open>%\<close> that two hexadecimal digits do not follow and on escapes that are not the
  UTF-8 encoding of a code point.
\<close>

definition URIError :: jsval where
  "URIError = JObj [(''name'', JStr ''URIError'')]"

definition hex_value :: "char \<Rightarrow> nat option" where
  "hex_value c =
     (let n = (of_char c :: nat)
      in if 48 \<le> n \<and> n \<le> 57 then Some (n - 48)
         else if 65 \<le> n \<and> n \<le> 70 then Some (n - 55)
         else if 97 \<le> n \<and> n \<le> 102 then Some (n - 87)
         else None)"

definition hex_octet :: "char \<Rightarrow> char \<Rightarrow> nat option" where
  "hex_octet a b =
     (case hex_value a of
        None \<Rightarrow> None
      | Some h \<Rightarrow> (case hex_value b of None \<Rightarrow> None | Some l \<Rightarrow> Some (16 * h + l)))"

text \<open>The number of leading 1 bits of a byte: 0 for a byte of ASCII, the length of the
  sequence for the first byte of a longer one.\<close>

definition leading_ones :: "nat \<Rightarrow> nat" where
  "leading_ones b =
     (if b < 128 then 0 else if b < 192 then 1 else if b < 224 then 2
      else if b < 240 then 3 else if b < 248 then 4 else 5)"

definition continuation :: "nat \<Rightarrow> bool" where
  "continuation b = (128 \<le> b \<and> b \<le> 191)"

text \<open>The well-formed UTF-8 sequences of two, three and four bytes: no overlong form, no
  surrogate, nothing beyond U+10FFFF.\<close>

fun valid_utf8 :: "nat list \<Rightarrow> bool" where
  "valid_utf8 [a, b] = (194 \<le> a \<and> a \<le> 223 \<and> continuation b)"
| "valid_utf8 [a, b, c] =
     (((a = 224 \<and> 160 \<le> b \<and> b \<le> 191) \<or> (225 \<le> a \<and> a \<le> 236 \<and> continuation b)
       \<or> (a = 237 \<and> 128 \<le> b \<and> b \<le> 159) \<or> (238 \<le> a \<and> a \<le> 239 \<and> continuation b))
      \<and> continuation c)"
| "valid_utf8 [a, b, c, d] =
     (((a = 240 \<and> 144 \<le> b \<and> b \<le> 191) \<or> (241 \<le> a \<and> a \<le> 243 \<and> continuation b)
       \<or> (a = 244 \<and> 128 \<le> b \<and> b \<le> 143))
      \<and> continuation c \<and> continuation d)"
| "valid_utf8 octets = False"

text \<open>The bytes of the next \<open>n\<close> escapes of a string, which take three characters each.\<close>

fun escapes :: "nat \<Rightarrow> string \<Rightarrow> nat list option" where
  "escapes 0 s = Some []"
| "escapes (Suc n) (p # a # b # s) =
     (if p = CHR ''%'' then
        (case hex_octet a b of
           None \<Rightarrow> None
         | Some x \<Rightarrow> (case escapes n s of None \<Rightarrow> None | Some xs \<Rightarrow> Some (x # xs)))
      else None)"
| "escapes (Suc n) s = None"

definition prepend :: "string \<Rightarrow> jsval + string \<Rightarrow> jsval + string" where
  "prepend cs r = (case r of Inl exn \<Rightarrow> Inl exn | Inr s \<Rightarrow> Inr (cs @ s))"

function decodeURIComponent :: "string \<Rightarrow> jsval + string" where
  "decodeURIComponent [] = Inr []"
| "decodeURIComponent (c # s) =
     (if c \<noteq> CHR ''%'' then prepend [c] (decodeURIComponent s)
      else (case s of
              a # b # rest \<Rightarrow>
                (case hex_octet a b of
                   None \<Rightarrow> Inl URIError
                 | Some x \<Rightarrow>
                     if leading_ones x = 0 then prepend [char_of x] (decodeURIComponent rest)
                     else if leading_ones x = 1 \<or> 4 < leading_ones x then Inl URIError
                     else (case escapes (leading_ones x - 1) rest of
                             None \<Rightarrow> Inl URIError
                           | Some xs \<Rightarrow>
                               if valid_utf8 (x # xs)
                               then prepend (map char_of (x # xs))
                                      (decodeURIComponent (drop (3 * (leading_ones x - 1)) rest))
                               else Inl URIError))
            | _ \<Rightarrow> Inl URIError))"
  by pat_completeness auto
termination
  by (relation "measure length") auto

text \<open>\<^verbatim>\<open>getCsrfToken\<close>; \<open>cookie\<close> is \<^verbatim>\<open>document.cookie\<close> when the constructor runs, and
  \<open>Inl\<close> is the exception \<^verbatim>\<open>decodeURIComponent\<close> throws.\<close>

definition getCsrfToken :: "string \<Rightarrow> jsval + string" where
  "getCsrfToken cookie =
     (let name = ''csrftoken=''
      in case decodeURIComponent cookie of
           Inl exn \<Rightarrow> Inl exn
         | Inr decodedCookie \<Rightarrow>
             (let cookies = splitStr CHR '';'' decodedCookie
              in Inr (cookie_loop name cookies)))"

definition no_handler_options :: handler_options where
  "no_handler_options = \<lparr>o_debug = None, o_defaultRetries = None, o_defaultDelay = None\<rparr>"

text \<open>\<^verbatim>\<open>new AjaxHandler(options)\<close>; \<open>None\<close> is an omitted argument or an absent field. The
  constructor throws what \<open>getCsrfToken\<close> throws.\<close>

definition new_AjaxHandler :: "handler_options option \<Rightarrow> string \<Rightarrow> jsval + ajax_handler" where
  "new_AjaxHandler given cookie =
     (let options = (case given of None \<Rightarrow> no_handler_options | Some opts \<Rightarrow> opts)
      in case getCsrfToken cookie of
           Inl exn \<Rightarrow> Inl exn
         | Inr token \<Rightarrow>
             Inr \<lparr>debug = (case o_debug options of Some b \<Rightarrow> b | None \<Rightarrow> False),
                  defaultRetries = (case o_defaultRetries options of Some n \<Rightarrow> n | None \<Rightarrow> 3),
                  defaultDelay = (case o_defaultDelay options of Some n \<Rightarrow> n | None \<Rightarrow> 500),
                  csrfToken = token\<rparr>)"

subsection \<open>The world a request runs in\<close>

datatype http_method = GET | POST

text \<open>The \<^verbatim>\<open>data\<close> setting: the payload itself for GET, \<^verbatim>\<open>JSON.stringify(data)\<close> (kept
  symbolic) otherwise. A payload is a flat object of strings.\<close>

datatype body = Params "string \<rightharpoonup> string" | JsonText "string \<rightharpoonup> string"

record ajax_settings =
  s_url :: "string option"
  s_type :: http_method
  s_data :: body
  s_contentType :: string
  s_headers :: "(string \<times> string) list"
  s_dataType :: string

text \<open>
  What one \<^verbatim>\<open>$.ajax\<close> call comes back with: resolved with the parsed body, or rejected
  with the arguments the library hands to failure handlers (\<^verbatim>\<open>xhr, status, error\<close>).
  \<^verbatim>\<open>$\<close> is jQuery, which is not part of the repository. \<^verbatim>\<open>$.ajax\<close> returns a jqXHR,
  and \<^verbatim>\<open>then\<close> and \<^verbatim>\<open>catch\<close> return jQuery promises: a handler that throws, or that
  returns a rejected promise, rejects the promise it feeds, with that one value; a
  rejection that meets no handler passes on with all its arguments. Every call is taken
  to settle.
\<close>

datatype outcome = Done jsval | Fail "jsval list"

text \<open>The calls the code makes on its environment, in order.\<close>

datatype event =
    is_Ajax: Ajax (call_settings: ajax_settings)
  | is_SetTimeout: SetTimeout int
  | is_SuccessCb: SuccessCb (call_response: jsval)
  | is_ErrorCb: ErrorCb jsval jsval jsval

datatype log_line =
    LogRequest http_method "string option" nat
  | LogMalformed jsval
  | LogError jsval jsval

record 's world =
  events :: "event list"
  console :: "log_line list"
  app :: 's

definition emit :: "event \<Rightarrow> 's world \<Rightarrow> 's world" where
  "emit e w = w\<lparr>events := events w @ [e]\<rparr>"

definition console_log :: "ajax_handler \<Rightarrow> log_line \<Rightarrow> 's world \<Rightarrow> 's world" where
  "console_log this l w = (if debug this then w\<lparr>console := console w @ [l]\<rparr> else w)"

text \<open>
  A callback works on the caller's state \<open>'s\<close> and either returns (\<open>None\<close>) or throws
  (\<open>Some e\<close>); what it did before throwing stays done.
\<close>

record 's request_options =
  retries :: "int option"
  delay :: "int option"
  success :: "(jsval \<Rightarrow> 's \<Rightarrow> jsval option \<times> 's) option"
  error :: "(jsval \<Rightarrow> jsval \<Rightarrow> jsval \<Rightarrow> 's \<Rightarrow> jsval option \<times> 's) option"
  finally_cb :: "('s \<Rightarrow> jsval option \<times> 's) option"

definition no_options :: "'s request_options" where
  "no_options = \<lparr>retries = None, delay = None, success = None, error = None, finally_cb = None\<rparr>"

text \<open>How a promise settles. A rejection carries the arguments its handlers receive.\<close>

datatype settled = Fulfilled jsval | Rejected "jsval list"

definition arg :: "jsval list \<Rightarrow> nat \<Rightarrow> jsval" where
  "arg args i = (if i < length args then args ! i else JUndefined)"

subsection \<open>request\<close>

definition settings :: "ajax_handler \<Rightarrow> http_method \<Rightarrow> string option \<Rightarrow> (string \<rightharpoonup> string) \<Rightarrow> ajax_settings" where
  "settings this method url data =
     \<lparr>s_url = url,
      s_type = method,
      s_data = (if method = GET then Params data else JsonText data),
      s_contentType = ''application/json'',
      s_headers = [(''X-CSRFToken'', csrfToken this)],
      s_dataType = ''json''\<rparr>"

definition invalid_json :: jsval where
  "invalid_json =
     JObj [(''xhr'', JNull), (''status'', JStr ''invalid_json''),
           (''error'', JStr ''Malformed JSON response'')]"

text \<open>
  The \<^verbatim>\<open>.then\<close> handler. \<open>Inl args\<close>: the promise it feeds is rejected, by the
  \<^verbatim>\<open>Promise.reject\<close> it returns or by an exception (the read of \<^verbatim>\<open>response.success\<close>
  on \<^verbatim>\<open>null\<close>, or a throwing \<^verbatim>\<open>options.success\<close>). \<open>Inr response\<close>: it is
  fulfilled.
\<close>

definition then_handler ::
  "ajax_handler \<Rightarrow> 's request_options \<Rightarrow> jsval \<Rightarrow> 's world \<Rightarrow> (jsval list + jsval) \<times> 's world" where
  "then_handler this options response w =
     (let malformed = (Inl [invalid_json], console_log this (LogMalformed response) w)
      in if typeof response \<noteq> ''object'' then malformed
         else (case get_prop response ''success'' of
                 Inl exn \<Rightarrow> (Inl [exn], w)
               | Inr s \<Rightarrow>
                   if s = JUndefined then malformed
                   else (case success options of
                           None \<Rightarrow> (Inr response, w)
                         | Some f \<Rightarrow>
                             (let w1 = emit (SuccessCb response) w;
                                  (thrown, st) = f response (app w1);
                                  w2 = w1\<lparr>app := st\<rparr>
                              in case thrown of
                                   Some exn \<Rightarrow> (Inl [exn], w2)
                                 | None \<Rightarrow> (Inr response, w2)))))"

text \<open>One attempt up to the \<^verbatim>\<open>.catch\<close>: the log line, the \<^verbatim>\<open>$.ajax\<close> call, and the
  \<^verbatim>\<open>.then\<close> handler when the call resolves.\<close>

definition attempt_once ::
  "ajax_handler \<Rightarrow> (nat \<Rightarrow> outcome) \<Rightarrow> http_method \<Rightarrow> string option \<Rightarrow> (string \<rightharpoonup> string) \<Rightarrow>
   's request_options \<Rightarrow> nat \<Rightarrow> 's world \<Rightarrow> (jsval list + jsval) \<times> 's world" where
  "attempt_once this server method url data options attempt w =
     (let w1 = console_log this (LogRequest method url attempt) w;
          w2 = emit (Ajax (settings this method url data)) w1
      in case server attempt of
           Done response \<Rightarrow> then_handler this options response w2
         | Fail args \<Rightarrow> (Inl args, w2))"

text \<open>The \<^verbatim>\<open>else\<close> branch of the \<^verbatim>\<open>.catch\<close> handler: no attempt is left.\<close>

definition give_up ::
  "'s request_options \<Rightarrow> jsval \<Rightarrow> jsval \<Rightarrow> jsval \<Rightarrow> 's world \<Rightarrow> settled \<times> 's world" where
  "give_up options xhr status err w =
     (let rejection = Rejected [JObj [(''xhr'', xhr), (''status'', status), (''error'', err)]]
      in case error options of
           None \<Rightarrow> (rejection, w)
         | Some f \<Rightarrow>
             (let w1 = emit (ErrorCb xhr status err) w;
                  (thrown, st) = f xhr status err (app w1);
                  w2 = w1\<lparr>app := st\<rparr>
              in case thrown of
                   Some exn \<Rightarrow> (Rejected [exn], w2)
                 | None \<Rightarrow> (rejection, w2)))"

text \<open>
  \<^verbatim>\<open>makeRequest\<close>. \<open>attempt\<close> is the closure's counter before the call; \<open>server k\<close> is
  what the \<open>k\<close>-th \<^verbatim>\<open>$.ajax\<close> call of this request comes back with.
\<close>

function makeRequest ::
  "ajax_handler \<Rightarrow> (nat \<Rightarrow> outcome) \<Rightarrow> http_method \<Rightarrow> string option \<Rightarrow> (string \<rightharpoonup> string) \<Rightarrow>
   's request_options \<Rightarrow> int \<Rightarrow> int \<Rightarrow> nat \<Rightarrow> 's world \<Rightarrow> settled \<times> 's world" where
  "makeRequest this server method url data options n_retries n_delay attempt w =
     (case attempt_once this server method url data options (Suc attempt) w of
        (Inr response, w1) \<Rightarrow> (Fulfilled response, w1)
      | (Inl args, w1) \<Rightarrow>
          (let xhr = arg args 0; status = arg args 1; err = arg args 2;
               w2 = console_log this (LogError status err) w1
           in if int (Suc attempt) < n_retries
              then makeRequest this server method url data options n_retries n_delay
                     (Suc attempt) (emit (SetTimeout n_delay) w2)
              else give_up options xhr status err w2))"
  by pat_completeness auto
termination
  by (relation "measure (\<lambda>(this, server, method, url, data, options, n_retries, n_delay, attempt, w).
                  nat (n_retries - int attempt))") auto

text \<open>
  \<^verbatim>\<open>request\<close>. The call \<^verbatim>\<open>makeRequest()\<close> starts the chain and returns what its
  \<^verbatim>\<open>.catch\<close> returns, a jQuery promise. The methods of a jQuery promise are
  \<^verbatim>\<open>state\<close>, \<^verbatim>\<open>always\<close>, \<^verbatim>\<open>catch\<close>, \<^verbatim>\<open>pipe\<close>, \<^verbatim>\<open>then\<close>, \<^verbatim>\<open>promise\<close>,
  \<^verbatim>\<open>progress\<close>, \<^verbatim>\<open>done\<close> and \<^verbatim>\<open>fail\<close>: it has no \<^verbatim>\<open>finally\<close>, so
  \<^verbatim>\<open>makeRequest().finally(...)\<close> calls \<^verbatim>\<open>undefined\<close> and throws a \<^verbatim>\<open>TypeError\<close> out of
  \<^verbatim>\<open>request\<close>. The caller gets no promise (\<open>Inl\<close> is what is thrown, \<open>Inr\<close> would be
  how a returned promise settles), and \<^verbatim>\<open>options.finally\<close> is handed to nobody. The
  chain that was started runs on when the transport answers: the world of the result is
  the one it leaves.
\<close>

definition request ::
  "ajax_handler \<Rightarrow> (nat \<Rightarrow> outcome) \<Rightarrow> http_method \<Rightarrow> string option \<Rightarrow> (string \<rightharpoonup> string) \<Rightarrow>
   's request_options \<Rightarrow> 's world \<Rightarrow> (jsval + settled) \<times> 's world" where
  "request this server method url data options w =
     (let n_retries = (case retries options of Some n \<Rightarrow> n | None \<Rightarrow> defaultRetries this);
          n_delay = (case delay options of Some n \<Rightarrow> n | None \<Rightarrow> defaultDelay this);
          chain = makeRequest this server method url data options n_retries n_delay 0 w
      in (Inl TypeError, snd chain))"

text \<open>\<^verbatim>\<open>get\<close> and \<^verbatim>\<open>post\<close>; an omitted \<^verbatim>\<open>data\<close> or \<^verbatim>\<open>options\<close> is \<^verbatim>\<open>{}\<close>.\<close>

definition get ::
  "ajax_handler \<Rightarrow> (nat \<Rightarrow> outcome) \<Rightarrow> string option \<Rightarrow> (string \<rightharpoonup> string) option \<Rightarrow>
   's request_options option \<Rightarrow> 's world \<Rightarrow> (jsval + settled) \<times> 's world" where
  "get this server url data options w =
     request this server GET url (case data of None \<Rightarrow> Map.empty | Some d \<Rightarrow> d)
       (case options of None \<Rightarrow> no_options | Some opts \<Rightarrow> opts) w"

definition post ::
  "ajax_handler \<Rightarrow> (nat \<Rightarrow> outcome) \<Rightarrow> string option \<Rightarrow> (string \<rightharpoonup> string) option \<Rightarrow>
   's request_options option \<Rightarrow> 's world \<Rightarrow> (jsval + settled) \<times> 's world" where
  "post this server url data options w =
     request this server POST url (case data of None \<Rightarrow> Map.empty | Some d \<Rightarrow> d)
       (case options of None \<Rightarrow> no_options | Some opts \<Rightarrow> opts) w"

section \<open>UIHelper\<close>

text \<open>
  The page is the forest of the nodes under \<^verbatim>\<open>body\<close>. An element has a tag, its
  attributes in source order, and its children.
\<close>

datatype node =
    TextNode string
  | Element (tag: string) (attributes: "(string \<times> string) list") (children: "node list")

text \<open>The elements of a subtree in document order, the node itself first.\<close>

fun elements :: "node \<Rightarrow> node list" where
  "elements (TextNode s) = []"
| "elements (Element t as cs) = Element t as cs # concat (map elements cs)"

definition has_id :: "string \<Rightarrow> node \<Rightarrow> bool" where
  "has_id i n = (case n of TextNode s \<Rightarrow> False | Element t as cs \<Rightarrow> map_of as ''id'' = Some i)"

text \<open>
  \<^verbatim>\<open>$('#id')\<close> selects what \<^verbatim>\<open>getElementById\<close> finds: the first element with that id
  in document order, or nothing. \<open>count_id\<close> counts all the elements with the id.
\<close>

definition select_id :: "string \<Rightarrow> node list \<Rightarrow> node list" where
  "select_id i ns = take 1 (filter (has_id i) (concat (map elements ns)))"

definition count_id :: "string \<Rightarrow> node list \<Rightarrow> nat" where
  "count_id i ns = length (filter (has_id i) (concat (map elements ns)))"

text \<open>
  \<^verbatim>\<open>$('#id').append(new)\<close>: the nodes become the last children of the element
  \<^verbatim>\<open>$('#id')\<close> selects; \<open>None\<close> when it selects nothing, and then nothing is attached.
\<close>

fun append_node :: "string \<Rightarrow> node list \<Rightarrow> node \<Rightarrow> node option"
  and append_forest :: "string \<Rightarrow> node list \<Rightarrow> node list \<Rightarrow> node list option" where
  "append_node i new (TextNode s) = None"
| "append_node i new (Element t as cs) =
     (if map_of as ''id'' = Some i then Some (Element t as (cs @ new))
      else (case append_forest i new cs of
              None \<Rightarrow> None
            | Some cs' \<Rightarrow> Some (Element t as cs')))"
| "append_forest i new [] = None"
| "append_forest i new (n # ns) =
     (case append_node i new n of
        Some n' \<Rightarrow> Some (n' # ns)
      | None \<Rightarrow> (case append_forest i new ns of
                   None \<Rightarrow> None
                 | Some ns' \<Rightarrow> Some (n # ns')))"

text \<open>\<open>shown\<close> are the elements \<^verbatim>\<open>new bootstrap.Toast(...).show()\<close> was called on.\<close>

record page =
  tree :: "node list"
  shown :: "node list"

text \<open>
  What the script needs of the browser and is not in the repository: \<open>parse html\<close> are
  the nodes \<^verbatim>\<open>$(html)\<close> builds from a string of markup, and \<open>member_text name\<close> is the
  text \<^verbatim>\<open>String(Object.prototype[name])\<close>.
\<close>

record browser =
  parse :: "string \<Rightarrow> node list"
  member_text :: "string \<Rightarrow> string"

definition colors :: "(string \<times> string) list" where
  "colors = [(''info'', ''bg-info''), (''success'', ''bg-success''),
             (''warning'', ''bg-warning''), (''error'', ''bg-danger'')]"

text \<open>
  \<^verbatim>\<open>colors[type] || colors.info\<close>. \<^verbatim>\<open>colors\<close> is an object literal, so the read finds
  its own four properties and, for the names of \<open>object_prototype\<close>, the member
  inherited from \<^verbatim>\<open>Object.prototype\<close>: a function or an object, which is truthy and is
  interpolated as its text.
\<close>

definition object_prototype :: "string list" where
  "object_prototype =
     [''constructor'', ''__defineGetter__'', ''__defineSetter__'', ''hasOwnProperty'',
      ''__lookupGetter__'', ''__lookupSetter__'', ''isPrototypeOf'', ''propertyIsEnumerable'',
      ''toString'', ''valueOf'', ''__proto__'', ''toLocaleString'']"

definition color_class :: "browser \<Rightarrow> string \<Rightarrow> string" where
  "color_class b type =
     (case map_of colors type of
        Some c \<Rightarrow> c
      | None \<Rightarrow> if type \<in> set object_prototype then member_text b type else ''bg-info'')"

text \<open>A line break followed by \<open>n\<close> spaces, and a text in double quotes.\<close>

definition br :: "nat \<Rightarrow> string" where
  "br n = CHR 0x0A # replicate n (CHR '' '')"

definition quoted :: "string \<Rightarrow> string" where
  "quoted s = [CHR 0x22] @ s @ [CHR 0x22]"

text \<open>The template literal of \<^verbatim>\<open>toast\<close>, with the class and the message filled in as
  they are.\<close>

definition toast_html :: "string \<Rightarrow> string \<Rightarrow> string" where
  "toast_html cls message =
     br 12 @ ''<div class='' @ quoted (''toast align-items-center text-white '' @ cls @ '' border-0'')
       @ '' role='' @ quoted ''alert'' @ '' aria-live='' @ quoted ''assertive''
       @ '' aria-atomic='' @ quoted ''true'' @ ''>''
     @ br 16 @ ''<div class='' @ quoted ''d-flex'' @ ''>''
     @ br 20 @ ''<div class='' @ quoted ''toast-body'' @ ''>'' @ message @ ''</div>''
     @ br 20 @ ''<button type='' @ quoted ''button''
       @ '' class='' @ quoted ''btn-close btn-close-white me-2 m-auto''
       @ '' data-bs-dismiss='' @ quoted ''toast'' @ '' aria-label='' @ quoted ''Close''
       @ ''></button>''
     @ br 16 @ ''</div>''
     @ br 12 @ ''</div>''
     @ br 8"

text \<open>
  \<^verbatim>\<open>toast(message, type = 'info')\<close>. \<open>message\<close> is the text the template literal makes
  of the argument, \<open>severity\<close> the second argument (\<open>None\<close> when it is omitted; the callers
  in this file pass a string or nothing). The nodes built from the markup are appended to
  what \<^verbatim>\<open>$('#toast-container')\<close> selects, and the first of them is shown. The model has
  the nodes of the markup as they are built and nothing else of it: a script in a
  message, which jQuery would run when it inserts the nodes, has no effect here, and the
  classes bootstrap gives to an element it shows are not in the tree.
\<close>

definition toast_nodes :: "browser \<Rightarrow> string \<Rightarrow> string option \<Rightarrow> node list" where
  "toast_nodes b message severity =
     (let type = (case severity of None \<Rightarrow> ''info'' | Some t \<Rightarrow> t)
      in parse b (toast_html (color_class b type) message))"

definition toast :: "browser \<Rightarrow> string \<Rightarrow> string option \<Rightarrow> page \<Rightarrow> page" where
  "toast b message severity p =
     (let el = toast_nodes b message severity
      in p\<lparr>tree := (case append_forest ''toast-container'' el (tree p) of
                     None \<Rightarrow> tree p
                   | Some ns \<Rightarrow> ns),
           shown := shown p @ take 1 el\<rparr>)"



text \<open>The assignment \<^verbatim>\<open>data[k] = v\<close> of a string to a plain object: it makes an own
  property, except for the name \<^verbatim>\<open>__proto__\<close>, whose setter ignores a string.\<close>

definition assign :: "(string \<rightharpoonup> string) \<Rightarrow> string \<Rightarrow> string \<Rightarrow> (string \<rightharpoonup> string)" where
  "assign data k v = (if k = ''__proto__'' then data else data(k \<mapsto> v))"

text \<open>\<^verbatim>\<open>serializeForm\<close>, on the name/value pairs \<^verbatim>\<open>serializeArray\<close> returns.\<close>

definition serializeForm :: "(string \<times> string) list \<Rightarrow> (string \<rightharpoonup> string)" where
  "serializeForm formArray = fold (\<lambda>item data. assign data (fst item) (snd item)) formArray Map.empty"

section \<open>GlobalEvents\<close>

text \<open>The constructor builds the handler and calls \<^verbatim>\<open>bindEvents\<close>, which registers the two
  delegated event handlers and touches nothing else.\<close>

record global_events =
  ajax :: ajax_handler

definition new_GlobalEvents :: "string \<Rightarrow> jsval + global_events" where
  "new_GlobalEvents cookie =
     (case new_AjaxHandler
             (Some \<lparr>o_debug = Some True, o_defaultRetries = None, o_defaultDelay = None\<rparr>) cookie of
        Inl exn \<Rightarrow> Inl exn
      | Inr handler \<Rightarrow> Inr \<lparr>ajax = handler\<rparr>)"

text \<open>The element the markup \<^verbatim>\<open><div id="toast-container" class="position-fixed top-0 end-0 p-3"
  style="z-index:1100;"></div>\<close> of the ready handler stands for.\<close>

definition container_element :: node where
  "container_element =
     Element ''div'' [(''id'', ''toast-container''), (''class'', ''position-fixed top-0 end-0 p-3''),
                      (''style'', ''z-index:1100;'')] []"

text \<open>
  The \<^verbatim>\<open>$(document).ready\<close> handler: \<^verbatim>\<open>window.App\<close>, or the exception that ends the
  handler before its second statement, and the page it leaves.
\<close>

definition ready :: "string \<Rightarrow> page \<Rightarrow> (jsval + global_events) \<times> page" where
  "ready cookie p =
     (case new_GlobalEvents cookie of
        Inl exn \<Rightarrow> (Inl exn, p)
      | Inr App \<Rightarrow>
          (Inr App, if length (select_id ''toast-container'' (tree p)) = 0
                    then p\<lparr>tree := tree p @ [container_element]\<rparr> else p))"

section \<open>Observations\<close>

text \<open>What a call added to the trace of a world.\<close>

definition new_events :: "'s world \<Rightarrow> 's world \<Rightarrow> event list" where
  "new_events w w' = drop (length (events w)) (events w')"

text \<open>The settings of the \<^verbatim>\<open>$.ajax\<close> calls of a trace, the responses handed to
  \<^verbatim>\<open>options.success\<close>, and the transport calls and timer waits alone.\<close>

definition ajax_calls :: "event list \<Rightarrow> ajax_settings list" where
  "ajax_calls tr = map call_settings (filter is_Ajax tr)"

definition success_calls :: "event list \<Rightarrow> jsval list" where
  "success_calls tr = map call_response (filter is_SuccessCb tr)"

definition net_events :: "event list \<Rightarrow> event list" where
  "net_events tr = filter (\<lambda>e. is_Ajax e \<or> is_SetTimeout e) tr"

text \<open>A response passes the validation of the \<^verbatim>\<open>.then\<close> handler when its test
  \<^verbatim>\<open>typeof response !== 'object' || response.success === undefined\<close> is evaluated
  without an exception and is false.\<close>

definition passes_validation :: "jsval \<Rightarrow> bool" where
  "passes_validation response =
     (typeof response = ''object'' \<and>
      (case get_prop response ''success'' of Inl exn \<Rightarrow> False | Inr s \<Rightarrow> s \<noteq> JUndefined))"

text \<open>An attempt fails at the transport level when the call is rejected or its response
  does not pass the validation; \<open>rejection_args\<close> is what the \<^verbatim>\<open>.catch\<close> handler then
  receives.\<close>

definition attempt_fails :: "outcome \<Rightarrow> bool" where
  "attempt_fails out =
     (case out of Fail args \<Rightarrow> True | Done response \<Rightarrow> \<not> passes_validation response)"

definition rejection_args :: "outcome \<Rightarrow> jsval list" where
  "rejection_args out =
     (case out of
        Fail args \<Rightarrow> args
      | Done response \<Rightarrow>
          (if typeof response \<noteq> ''object'' then [invalid_json]
           else (case get_prop response ''success'' of
                   Inl exn \<Rightarrow> [exn]
                 | Inr s \<Rightarrow> [invalid_json])))"

text \<open>The object \<^verbatim>\<open>{ xhr, status, error }\<close> the \<^verbatim>\<open>.catch\<close> handler rejects with.\<close>

definition terminal_error :: "jsval list \<Rightarrow> jsval" where
  "terminal_error args =
     JObj [(''xhr'', arg args 0), (''status'', arg args 1), (''error'', arg args 2)]"

text \<open>The retry bound and the delay a call runs with.\<close>

definition bound :: "ajax_handler \<Rightarrow> 's request_options \<Rightarrow> int" where
  "bound this options = (case retries options of Some n \<Rightarrow> n | None \<Rightarrow> defaultRetries this)"

definition wait :: "ajax_handler \<Rightarrow> 's request_options \<Rightarrow> int" where
  "wait this options = (case delay options of Some n \<Rightarrow> n | None \<Rightarrow> defaultDelay this)"

text \<open>The number of the last attempt a call can make when its counter stands at
  \<open>attempt\<close>: the loop tests the bound only after an attempt.\<close>

definition last_attempt :: "int \<Rightarrow> nat \<Rightarrow> nat" where
  "last_attempt n attempt = max (Suc attempt) (nat n)"

text \<open>The responses that pass the validation among those of the attempts \<open>a + 1\<close> to
  \<open>a + m\<close>, in order.\<close>

definition accepted :: "(nat \<Rightarrow> outcome) \<Rightarrow> nat \<Rightarrow> nat \<Rightarrow> jsval list" where
  "accepted server a m =
     concat (map (\<lambda>k. case server k of
                         Done r \<Rightarrow> if passes_validation r then [r] else []
                       | Fail args \<Rightarrow> [])
                 [Suc a..<Suc (a + m)])"

text \<open>A success callback that returns normally whenever it is given a response of this
  server that passes the validation.\<close>

definition returns_when_accepted :: "(nat \<Rightarrow> outcome) \<Rightarrow> 's request_options \<Rightarrow> bool" where
  "returns_when_accepted server options =
     (case success options of
        None \<Rightarrow> True
      | Some f \<Rightarrow> \<forall>k r st. server k = Done r \<and> passes_validation r \<longrightarrow> fst (f r st) = None)"

section \<open>The cookie store\<close>

text \<open>
  What \<^verbatim>\<open>document.cookie\<close> reads for a store of name/value pairs:
  \<^verbatim>\<open>name=value\<close> pieces joined by a semicolon and a space. The names and values of a
  plain store are printable ASCII without space, semicolon or percent sign (so without
  escapes), and its names have no equals sign.
\<close>

definition piece :: "string \<times> string \<Rightarrow> string" where
  "piece nv = fst nv @ CHR ''='' # snd nv"

fun render_cookies :: "(string \<times> string) list \<Rightarrow> string" where
  "render_cookies [] = []"
| "render_cookies [(n, v)] = n @ ''='' @ v"
| "render_cookies ((n, v) # rest) = n @ ''='' @ v @ ''; '' @ render_cookies rest"

definition plain_text :: "string \<Rightarrow> bool" where
  "plain_text s =
     list_all (\<lambda>c. 33 \<le> (of_char c :: nat) \<and> (of_char c :: nat) \<le> 126
                 \<and> c \<noteq> CHR '';'' \<and> c \<noteq> CHR ''%'') s"

definition plain_store :: "(string \<times> string) list \<Rightarrow> bool" where
  "plain_store jar =
     list_all (\<lambda>(n, v). plain_text n \<and> plain_text v \<and> CHR ''='' \<notin> set n) jar"

section \<open>Example inputs\<close>

text \<open>A world with an empty trace, the handler \<^verbatim>\<open>new AjaxHandler()\<close> builds and the
  \<^verbatim>\<open>App\<close> the ready handler builds when the cookie string is
  \<^verbatim>\<open>sessionid=1; csrftoken=abc\<close>, and a page with nothing in it.\<close>

definition example_world :: "unit world" where
  "example_world = \<lparr>events = [], console = [], app = ()\<rparr>"

definition example_handler :: ajax_handler where
  "example_handler = \<lparr>debug = False, defaultRetries = 3, defaultDelay = 500, csrfToken = ''abc''\<rparr>"




section \<open>Lemmas about the request loop\<close>

declare makeRequest.simps [simp del]

lemma events_console_log [simp]: "events (console_log this l w) = events w"
  and app_console_log [simp]: "app (console_log this l w) = app w"
  by (simp_all add: console_log_def)

lemma events_emit [simp]: "events (emit e w) = events w @ [e]"
  and app_emit [simp]: "app (emit e w) = app w"
  by (simp_all add: emit_def)

lemma net_events_append [simp]: "net_events (xs @ ys) = net_events xs @ net_events ys"
  and ajax_calls_append [simp]: "ajax_calls (xs @ ys) = ajax_calls xs @ ajax_calls ys"
  and success_calls_append [simp]: "success_calls (xs @ ys) = success_calls xs @ success_calls ys"
  by (simp_all add: net_events_def ajax_calls_def success_calls_def)

lemma observe_simps [simp]:
  "net_events [] = []" "ajax_calls [] = []" "success_calls [] = []"
  "net_events (e # es) = (if is_Ajax e \<or> is_SetTimeout e then e # net_events es else net_events es)"
  "ajax_calls (e # es) = (if is_Ajax e then call_settings e # ajax_calls es else ajax_calls es)"
  "success_calls (e # es) = (if is_SuccessCb e then call_response e # success_calls es else success_calls es)"
  by (simp_all add: net_events_def ajax_calls_def success_calls_def)

lemma new_events_append: "events w' = events w @ new \<Longrightarrow> new_events w w' = new"
  by (simp add: new_events_def)

subsection \<open>The then handler\<close>

lemma then_handler_invalid:
  assumes "\<not> passes_validation response"
  shows "fst (then_handler this options response w) = Inl (rejection_args (Done response))"
    and "events (snd (then_handler this options response w)) = events w"
    and "app (snd (then_handler this options response w)) = app w"
  using assms
  by (auto simp: passes_validation_def then_handler_def rejection_args_def Let_def split: sum.splits)

lemma then_handler_valid:
  assumes "passes_validation response"
  shows "then_handler this options response w =
     (case success options of
        None \<Rightarrow> (Inr response, w)
      | Some f \<Rightarrow>
          (case fst (f response (app w)) of
             Some exn \<Rightarrow> Inl [exn]
           | None \<Rightarrow> Inr response,
           (emit (SuccessCb response) w)\<lparr>app := snd (f response (app w))\<rparr>))"
  using assms
  by (auto simp: passes_validation_def then_handler_def Let_def split: sum.splits option.splits prod.splits)

lemma then_handler_events:
  "events (snd (then_handler this options response w)) =
     events w @ (if passes_validation response \<and> success options \<noteq> None then [SuccessCb response] else [])"
  by (cases "passes_validation response")
     (auto simp: then_handler_invalid then_handler_valid split: option.splits)

lemma then_handler_Inr:
  "fst (then_handler this options response w) = Inr r \<Longrightarrow> r = response \<and> passes_validation response"
  by (cases "passes_validation response")
     (auto simp: then_handler_invalid then_handler_valid split: option.splits)

subsection \<open>One attempt\<close>

lemma attempt_once_events:
  "events (snd (attempt_once this server meth url data options k w)) =
     events w @ Ajax (settings this meth url data) #
       (case server k of
          Done response \<Rightarrow>
            if passes_validation response \<and> success options \<noteq> None then [SuccessCb response] else []
        | Fail args \<Rightarrow> [])"
  by (simp add: attempt_once_def Let_def then_handler_events split: outcome.splits)

lemma attempt_once_fails:
  assumes "attempt_fails (server k)"
  shows "fst (attempt_once this server meth url data options k w) = Inl (rejection_args (server k))"
    and "events (snd (attempt_once this server meth url data options k w)) =
           events w @ [Ajax (settings this meth url data)]"
    and "app (snd (attempt_once this server meth url data options k w)) = app w"
  using assms
  by (auto simp: attempt_once_def attempt_fails_def Let_def then_handler_invalid rejection_args_def
           split: outcome.splits)

lemma attempt_once_Inr:
  "fst (attempt_once this server meth url data options k w) = Inr r \<Longrightarrow>
   server k = Done r \<and> passes_validation r"
  by (auto simp: attempt_once_def Let_def split: outcome.splits dest: then_handler_Inr)

subsection \<open>Giving up\<close>

lemma give_up_events:
  "events (snd (give_up options xhr status err w)) =
     events w @ (case error options of None \<Rightarrow> [] | Some f \<Rightarrow> [ErrorCb xhr status err])"
  by (auto simp: give_up_def Let_def split: option.splits prod.splits)

lemma give_up_app:
  "app (snd (give_up options xhr status err w)) =
     (case error options of None \<Rightarrow> app w | Some f \<Rightarrow> snd (f xhr status err (app w)))"
  by (auto simp: give_up_def Let_def split: option.splits prod.splits)

lemma give_up_fst:
  "fst (give_up options xhr status err w) =
     (case error options of
        None \<Rightarrow> Rejected [JObj [(''xhr'', xhr), (''status'', status), (''error'', err)]]
      | Some f \<Rightarrow>
          (case fst (f xhr status err (app w)) of
             Some exn \<Rightarrow> Rejected [exn]
           | None \<Rightarrow> Rejected [JObj [(''xhr'', xhr), (''status'', status), (''error'', err)]]))"
  by (auto simp: give_up_def Let_def split: option.splits prod.splits)

lemma give_up_rejects: "\<exists>args. fst (give_up options xhr status err w) = Rejected args"
  by (auto simp: give_up_fst split: option.splits)

subsection \<open>The retry loop\<close>

lemma makeRequest_unfold:
  "makeRequest this server meth url data options n d attempt w =
     (let r = attempt_once this server meth url data options (Suc attempt) w
      in case fst r of
           Inr response \<Rightarrow> (Fulfilled response, snd r)
         | Inl args \<Rightarrow>
             if int (Suc attempt) < n
             then makeRequest this server meth url data options n d (Suc attempt)
                    (emit (SetTimeout d) (console_log this (LogError (arg args 1) (arg args 2)) (snd r)))
             else give_up options (arg args 0) (arg args 1) (arg args 2)
                    (console_log this (LogError (arg args 1) (arg args 2)) (snd r)))"
  by (subst makeRequest.simps) (simp add: Let_def split: prod.splits sum.splits)

lemma makeRequest_cases [case_names fulfilled retry stop]:
  fixes w :: "'s world"
  obtains response where
      "fst (attempt_once this server meth url data options (Suc attempt) w) = Inr response"
      "makeRequest this server meth url data options n d attempt w =
         (Fulfilled response, snd (attempt_once this server meth url data options (Suc attempt) w))"
  | args where
      "fst (attempt_once this server meth url data options (Suc attempt) w) = Inl args"
      "int (Suc attempt) < n"
      "makeRequest this server meth url data options n d attempt w =
         makeRequest this server meth url data options n d (Suc attempt)
           (emit (SetTimeout d) (console_log this (LogError (arg args 1) (arg args 2))
              (snd (attempt_once this server meth url data options (Suc attempt) w))))"
  | args where
      "fst (attempt_once this server meth url data options (Suc attempt) w) = Inl args"
      "\<not> int (Suc attempt) < n"
      "makeRequest this server meth url data options n d attempt w =
         give_up options (arg args 0) (arg args 1) (arg args 2)
           (console_log this (LogError (arg args 1) (arg args 2))
              (snd (attempt_once this server meth url data options (Suc attempt) w)))"
proof (cases "fst (attempt_once this server meth url data options (Suc attempt) w)")
  case (Inr response)
  have "makeRequest this server meth url data options n d attempt w =
         (Fulfilled response, snd (attempt_once this server meth url data options (Suc attempt) w))"
    using Inr by (subst makeRequest_unfold) (simp add: Let_def)
  with Inr show ?thesis by (rule that(1))
next
  case (Inl args)
  show ?thesis
  proof (cases "int (Suc attempt) < n")
    case True
    have "makeRequest this server meth url data options n d attempt w =
         makeRequest this server meth url data options n d (Suc attempt)
           (emit (SetTimeout d) (console_log this (LogError (arg args 1) (arg args 2))
              (snd (attempt_once this server meth url data options (Suc attempt) w))))"
      using True Inl by (subst makeRequest_unfold) (simp add: Let_def)
    with Inl True show ?thesis by (rule that(2))
  next
    case False
    have "makeRequest this server meth url data options n d attempt w =
         give_up options (arg args 0) (arg args 1) (arg args 2)
           (console_log this (LogError (arg args 1) (arg args 2))
              (snd (attempt_once this server meth url data options (Suc attempt) w)))"
      using False Inl by (subst makeRequest_unfold) (simp add: Let_def)
    with Inl False show ?thesis by (rule that(3))
  qed
qed

lemma makeRequest_induct [case_names step]:
  fixes w :: "'s world"
  assumes "\<And>attempt w.
     (\<And>args. fst (attempt_once this server meth url data options (Suc attempt) w) = Inl args \<Longrightarrow>
        int (Suc attempt) < n \<Longrightarrow>
        P (Suc attempt) (emit (SetTimeout d)
             (console_log this (LogError (arg args 1) (arg args 2))
                (snd (attempt_once this server meth url data options (Suc attempt) w)))))
     \<Longrightarrow> P attempt w"
  shows "P attempt w"
proof (induction "nat (n - int attempt)" arbitrary: attempt w rule: less_induct)
  case less
  show ?case
    by (rule assms) (rule less, simp)
qed

lemma last_attempt_retry:
  assumes "int (Suc attempt) < n"
  shows "last_attempt n (Suc attempt) = last_attempt n attempt"
    and "last_attempt n attempt - Suc attempt = Suc (last_attempt n attempt - Suc (Suc attempt))"
    and "Suc attempt < last_attempt n attempt"
  using assms by (auto simp: last_attempt_def)

lemma last_attempt_stop:
  assumes "\<not> int (Suc attempt) < n"
  shows "last_attempt n attempt = Suc attempt"
  using assms by (auto simp: last_attempt_def)

text \<open>The call only adds to the trace.\<close>

lemma makeRequest_prefix:
  "\<exists>new. events (snd (makeRequest this server meth url data options n d attempt w)) = events w @ new"
proof (induction attempt w rule: makeRequest_induct[where this=this and server=server and meth=meth
        and url=url and data=data and options=options and n=n and d=d])
  case (step attempt w)
  show ?case
  proof (cases rule: makeRequest_cases[of this server meth url data options attempt w n d])
    case (fulfilled response)
    then show ?thesis by (simp add: attempt_once_events)
  next
    case (retry args)
    from step[OF retry(1,2)] show ?thesis
      unfolding retry(3) by (auto simp: attempt_once_events)
  next
    case (stop args)
    then show ?thesis by (simp add: give_up_events attempt_once_events)
  qed
qed

text \<open>Transport calls and waits alternate.\<close>

lemma makeRequest_net:
  "\<exists>k \<le> last_attempt n attempt - Suc attempt.
     net_events (events (snd (makeRequest this server meth url data options n d attempt w))) =
       net_events (events w)
       @ concat (replicate k [Ajax (settings this meth url data), SetTimeout d])
       @ [Ajax (settings this meth url data)]"
proof (induction attempt w rule: makeRequest_induct[where this=this and server=server and meth=meth
        and url=url and data=data and options=options and n=n and d=d])
  case (step attempt w)
  let ?s = "settings this meth url data"
  have once: "net_events (events (snd (attempt_once this server meth url data options (Suc attempt) w)))
      = net_events (events w) @ [Ajax ?s]"
    by (simp add: attempt_once_events split: outcome.splits)
  show ?case
  proof (cases rule: makeRequest_cases[of this server meth url data options attempt w n d])
    case (fulfilled response)
    then show ?thesis by (intro exI[of _ 0]) (simp add: once)
  next
    case (retry args)
    from step[OF retry(1,2)] obtain k where
      k: "k \<le> last_attempt n (Suc attempt) - Suc (Suc attempt)"
      and tr: "net_events (events (snd (makeRequest this server meth url data options n d attempt w))) =
        (net_events (events w) @ [Ajax ?s] @ [SetTimeout d])
        @ concat (replicate k [Ajax ?s, SetTimeout d]) @ [Ajax ?s]"
      unfolding retry(3) by (auto simp: once)
    show ?thesis
      using k tr last_attempt_retry[OF retry(2)]
      by (intro exI[of _ "Suc k"]) simp
  next
    case (stop args)
    have "net_events (events (snd (give_up options (arg args 0) (arg args 1) (arg args 2)
           (console_log this (LogError (arg args 1) (arg args 2))
              (snd (attempt_once this server meth url data options (Suc attempt) w)))))) =
          net_events (events w) @ [Ajax ?s]"
      by (simp add: give_up_events once split: option.splits)
    then show ?thesis unfolding stop(3) by (intro exI[of _ 0]) simp
  qed
qed

text \<open>A request all of whose attempts fail.\<close>

lemma makeRequest_all_fail:
  "(\<forall>k. attempt < k \<and> k \<le> last_attempt n attempt \<longrightarrow> attempt_fails (server k)) \<longrightarrow>
   events (snd (makeRequest this server meth url data options n d attempt w)) =
     events w
     @ concat (replicate (last_attempt n attempt - Suc attempt)
         [Ajax (settings this meth url data), SetTimeout d])
     @ [Ajax (settings this meth url data)]
     @ (case error options of None \<Rightarrow> []
        | Some f \<Rightarrow> [ErrorCb (arg (rejection_args (server (last_attempt n attempt))) 0)
                             (arg (rejection_args (server (last_attempt n attempt))) 1)
                             (arg (rejection_args (server (last_attempt n attempt))) 2)])
   \<and> fst (makeRequest this server meth url data options n d attempt w) =
       (case error options of
          None \<Rightarrow> Rejected [terminal_error (rejection_args (server (last_attempt n attempt)))]
        | Some f \<Rightarrow>
            (case fst (f (arg (rejection_args (server (last_attempt n attempt))) 0)
                         (arg (rejection_args (server (last_attempt n attempt))) 1)
                         (arg (rejection_args (server (last_attempt n attempt))) 2) (app w)) of
               Some exn \<Rightarrow> Rejected [exn]
             | None \<Rightarrow> Rejected [terminal_error (rejection_args (server (last_attempt n attempt)))]))
   \<and> app (snd (makeRequest this server meth url data options n d attempt w)) =
       (case error options of
          None \<Rightarrow> app w
        | Some f \<Rightarrow> snd (f (arg (rejection_args (server (last_attempt n attempt))) 0)
                          (arg (rejection_args (server (last_attempt n attempt))) 1)
                          (arg (rejection_args (server (last_attempt n attempt))) 2) (app w)))"
proof (induction attempt w rule: makeRequest_induct[where this=this and server=server and meth=meth
        and url=url and data=data and options=options and n=n and d=d])
  case (step attempt w)
  let ?s = "settings this meth url data"
  show ?case
  proof
    assume fails: "\<forall>k. attempt < k \<and> k \<le> last_attempt n attempt \<longrightarrow> attempt_fails (server k)"
    have f1: "attempt_fails (server (Suc attempt))"
      using fails by (simp add: last_attempt_def)
    note once = attempt_once_fails[where server=server and k="Suc attempt" and this=this and meth=meth and url=url and data=data and options=options and w=w, OF f1]
    show "events (snd (makeRequest this server meth url data options n d attempt w)) =
     events w
     @ concat (replicate (last_attempt n attempt - Suc attempt) [Ajax ?s, SetTimeout d])
     @ [Ajax ?s]
     @ (case error options of None \<Rightarrow> []
        | Some f \<Rightarrow> [ErrorCb (arg (rejection_args (server (last_attempt n attempt))) 0)
                             (arg (rejection_args (server (last_attempt n attempt))) 1)
                             (arg (rejection_args (server (last_attempt n attempt))) 2)])
   \<and> fst (makeRequest this server meth url data options n d attempt w) =
       (case error options of
          None \<Rightarrow> Rejected [terminal_error (rejection_args (server (last_attempt n attempt)))]
        | Some f \<Rightarrow>
            (case fst (f (arg (rejection_args (server (last_attempt n attempt))) 0)
                         (arg (rejection_args (server (last_attempt n attempt))) 1)
                         (arg (rejection_args (server (last_attempt n attempt))) 2) (app w)) of
               Some exn \<Rightarrow> Rejected [exn]
             | None \<Rightarrow> Rejected [terminal_error (rejection_args (server (last_attempt n attempt)))]))
   \<and> app (snd (makeRequest this server meth url data options n d attempt w)) =
       (case error options of
          None \<Rightarrow> app w
        | Some f \<Rightarrow> snd (f (arg (rejection_args (server (last_attempt n attempt))) 0)
                          (arg (rejection_args (server (last_attempt n attempt))) 1)
                          (arg (rejection_args (server (last_attempt n attempt))) 2) (app w)))"
    proof (cases rule: makeRequest_cases[of this server meth url data options attempt w n d])
      case (fulfilled response)
      with once(1) show ?thesis by simp
    next
      case (retry args)
      note la = last_attempt_retry[OF retry(2)]
      have "\<forall>k. Suc attempt < k \<and> k \<le> last_attempt n (Suc attempt) \<longrightarrow> attempt_fails (server k)"
        using fails la(1) by simp
      with step[OF retry(1,2)] show ?thesis
        unfolding retry(3) by (simp add: once la cong: option.case_cong)
    next
      case (stop args)
      note la = last_attempt_stop[OF stop(2)]
      from stop(1) once(1) have args: "args = rejection_args (server (Suc attempt))" by simp
      show ?thesis
        unfolding stop(3)
        by (simp add: give_up_events give_up_fst give_up_app once la args terminal_error_def
                 cong: option.case_cong)
    qed
  qed
qed

text \<open>The success callback runs only on a response that passed the validation, and at
  most once for each transport call.\<close>

lemma makeRequest_success_valid:
  "\<exists>new. events (snd (makeRequest this server meth url data options n d attempt w)) = events w @ new
      \<and> set (success_calls new)
          \<subseteq> {r. \<exists>k. attempt < k \<and> k \<le> last_attempt n attempt \<and> server k = Done r \<and> passes_validation r}"
proof (induction attempt w rule: makeRequest_induct[where this=this and server=server and meth=meth
        and url=url and data=data and options=options and n=n and d=d])
  case (step attempt w)
  let ?S = "\<lambda>attempt. {r. \<exists>k. attempt < k \<and> k \<le> last_attempt n attempt \<and> server k = Done r \<and> passes_validation r}"
  define one where "one = Ajax (settings this meth url data) #
       (case server (Suc attempt) of
          Done response \<Rightarrow>
            if passes_validation response \<and> success options \<noteq> None then [SuccessCb response] else []
        | Fail args \<Rightarrow> [])"
  have one: "events (snd (attempt_once this server meth url data options (Suc attempt) w))
      = events w @ one"
    by (simp add: one_def attempt_once_events)
  have valid: "set (success_calls one) \<subseteq> ?S attempt"
    by (auto simp: one_def last_attempt_def split: outcome.splits if_splits intro!: exI[of _ "Suc attempt"])
  show ?case
  proof (cases rule: makeRequest_cases[of this server meth url data options attempt w n d])
    case (fulfilled response)
    then show ?thesis using one valid by auto
  next
    case (retry args)
    note la = last_attempt_retry[OF retry(2)]
    have sub: "?S (Suc attempt) \<subseteq> ?S attempt"
      using la(1) by (auto intro: Suc_lessD)
    from step[OF retry(1,2)] obtain new where
      new: "events (snd (makeRequest this server meth url data options n d attempt w)) =
              events w @ one @ [SetTimeout d] @ new"
      and "set (success_calls new) \<subseteq> ?S (Suc attempt)"
      unfolding retry(3) by (auto simp: one)
    with sub valid have "set (success_calls (one @ [SetTimeout d] @ new)) \<subseteq> ?S attempt"
      by auto
    with new show ?thesis by blast
  next
    case (stop args)
    have "events (snd (makeRequest this server meth url data options n d attempt w)) =
        events w @ one @ (case error options of None \<Rightarrow> [] | Some f \<Rightarrow> [ErrorCb (arg args 0) (arg args 1) (arg args 2)])"
      unfolding stop(3) by (simp add: give_up_events one cong: option.case_cong)
    moreover have "set (success_calls (one @ (case error options of None \<Rightarrow> [] | Some f \<Rightarrow> [ErrorCb (arg args 0) (arg args 1) (arg args 2)]))) \<subseteq> ?S attempt"
      using valid by (auto split: option.splits)
    ultimately show ?thesis by blast
  qed
qed

lemma makeRequest_success_per_call:
  "length (success_calls (events (snd (makeRequest this server meth url data options n d attempt w))))
     + length (ajax_calls (events w))
   \<le> length (success_calls (events w))
     + length (ajax_calls (events (snd (makeRequest this server meth url data options n d attempt w))))"
proof (induction attempt w rule: makeRequest_induct[where this=this and server=server and meth=meth
        and url=url and data=data and options=options and n=n and d=d])
  case (step attempt w)
  have once: "length (success_calls (events (snd (attempt_once this server meth url data options (Suc attempt) w))))
      \<le> length (success_calls (events w)) + 1"
    "length (ajax_calls (events (snd (attempt_once this server meth url data options (Suc attempt) w))))
      = length (ajax_calls (events w)) + 1"
    by (auto simp: attempt_once_events split: outcome.splits)
  show ?case
  proof (cases rule: makeRequest_cases[of this server meth url data options attempt w n d])
    case (fulfilled response)
    then show ?thesis using once by simp
  next
    case (retry args)
    with step[OF retry(1,2)] once show ?thesis
      unfolding retry(3) by simp
  next
    case (stop args)
    then show ?thesis using once by (simp add: give_up_events split: option.splits)
  qed
qed

text \<open>The success callback runs on the responses that pass the validation, once for each
  of them, in the order of the attempts.\<close>

lemma accepted_Suc:
  "accepted server a (Suc m) =
     (case server (Suc a) of
        Done r \<Rightarrow> if passes_validation r then [r] else []
      | Fail args \<Rightarrow> []) @ accepted server (Suc a) m"
proof -
  have "[Suc a..<Suc (a + Suc m)] = Suc a # [Suc (Suc a)..<Suc (Suc a + m)]"
    by (subst upt_rec) simp
  then show ?thesis by (simp add: accepted_def)
qed

lemma accepted_0 [simp]: "accepted server a 0 = []"
  by (simp add: accepted_def)

lemma makeRequest_success_exact:
  "\<exists>new. events (snd (makeRequest this server meth url data options n d attempt w)) = events w @ new
      \<and> success_calls new =
          (if success options = None then [] else accepted server attempt (length (ajax_calls new)))"
proof (induction attempt w rule: makeRequest_induct[where this=this and server=server and meth=meth
        and url=url and data=data and options=options and n=n and d=d])
  case (step attempt w)
  define one where "one = Ajax (settings this meth url data) #
       (case server (Suc attempt) of
          Done response \<Rightarrow>
            if passes_validation response \<and> success options \<noteq> None then [SuccessCb response] else []
        | Fail args \<Rightarrow> [])"
  have one: "events (snd (attempt_once this server meth url data options (Suc attempt) w))
      = events w @ one"
    by (simp add: one_def attempt_once_events)
  have sc: "success_calls one =
      (if success options = None then []
       else (case server (Suc attempt) of
               Done r \<Rightarrow> if passes_validation r then [r] else []
             | Fail args \<Rightarrow> []))"
    and ac: "length (ajax_calls one) = 1"
    by (auto simp: one_def split: outcome.splits)
  show ?case
  proof (cases rule: makeRequest_cases[of this server meth url data options attempt w n d])
    case (fulfilled response)
    have "events (snd (makeRequest this server meth url data options n d attempt w)) = events w @ one"
      unfolding fulfilled(2) by (simp add: one)
    moreover have "success_calls one =
        (if success options = None then [] else accepted server attempt (length (ajax_calls one)))"
      unfolding ac sc by (simp add: accepted_Suc)
    ultimately show ?thesis by blast
  next
    case (retry args)
    from step[OF retry(1,2)] obtain new where
      new: "events (snd (makeRequest this server meth url data options n d attempt w)) =
              events w @ one @ [SetTimeout d] @ new"
      and scn: "success_calls new =
          (if success options = None then [] else accepted server (Suc attempt) (length (ajax_calls new)))"
      unfolding retry(3) by (auto simp: one)
    have "success_calls (one @ [SetTimeout d] @ new) =
        (if success options = None then []
         else accepted server attempt (length (ajax_calls (one @ [SetTimeout d] @ new))))"
      using ac by (simp add: sc scn accepted_Suc)
    with new show ?thesis by blast
  next
    case (stop args)
    define err where "err = (case error options of None \<Rightarrow> []
        | Some f \<Rightarrow> [ErrorCb (arg args 0) (arg args 1) (arg args 2)])"
    have "events (snd (makeRequest this server meth url data options n d attempt w)) =
        events w @ one @ err"
      unfolding stop(3) err_def by (simp add: give_up_events one cong: option.case_cong)
    moreover have "success_calls err = []" "ajax_calls err = []"
      by (simp_all add: err_def split: option.splits)
    then have "success_calls (one @ err) =
        (if success options = None then [] else accepted server attempt (length (ajax_calls (one @ err))))"
      using ac by (simp add: sc accepted_Suc)
    ultimately show ?thesis by blast
  qed
qed

text \<open>An attempt whose response passes the validation and whose success callback returns
  is the last one.\<close>

lemma attempt_once_accepts:
  fixes w :: "'s world"
  assumes "server k = Done response"
    and "passes_validation response"
    and "\<forall>f st. success options = Some f \<longrightarrow> fst (f response st) = None"
  shows "fst (attempt_once this server meth url data options k w) = Inr response"
    and "events (snd (attempt_once this server meth url data options k w)) =
           events w @ Ajax (settings this meth url data)
             # (case success options of None \<Rightarrow> [] | Some f \<Rightarrow> [SuccessCb response])"
  using assms
  by (auto simp: attempt_once_def Let_def then_handler_valid split: option.splits)

lemma makeRequest_stops:
  fixes w :: "'s world"
  assumes k: "server k = Done response"
    and valid: "passes_validation response"
    and ret: "\<forall>f st. success options = Some f \<longrightarrow> fst (f response st) = None"
  shows "attempt < k \<longrightarrow>
     (\<exists>new. events (snd (makeRequest this server meth url data options n d attempt w)) = events w @ new
        \<and> length (ajax_calls new) \<le> k - attempt
        \<and> (length (ajax_calls new) = k - attempt \<longrightarrow>
             (\<exists>before. new = before @ Ajax (settings this meth url data)
                  # (case success options of None \<Rightarrow> [] | Some f \<Rightarrow> [SuccessCb response])
                \<and> length (ajax_calls before) = k - Suc attempt)))"
proof (induction attempt w rule: makeRequest_induct[where this=this and server=server and meth=meth
        and url=url and data=data and options=options and n=n and d=d])
  case (step attempt w)
  let ?tail = "Ajax (settings this meth url data)
                  # (case success options of None \<Rightarrow> [] | Some f \<Rightarrow> [SuccessCb response])"
  define one where "one = Ajax (settings this meth url data) #
       (case server (Suc attempt) of
          Done response \<Rightarrow>
            if passes_validation response \<and> success options \<noteq> None then [SuccessCb response] else []
        | Fail args \<Rightarrow> [])"
  have one: "events (snd (attempt_once this server meth url data options (Suc attempt) w))
      = events w @ one"
    by (simp add: one_def attempt_once_events)
  have ac: "length (ajax_calls one) = 1"
    by (auto simp: one_def split: outcome.splits)
  show ?case
  proof
    assume less: "attempt < k"
    show "\<exists>new. events (snd (makeRequest this server meth url data options n d attempt w)) = events w @ new
        \<and> length (ajax_calls new) \<le> k - attempt
        \<and> (length (ajax_calls new) = k - attempt \<longrightarrow>
             (\<exists>before. new = before @ ?tail \<and> length (ajax_calls before) = k - Suc attempt))"
    proof (cases "Suc attempt = k")
      case True
      note acc = attempt_once_accepts[where server=server and k="Suc attempt" and response=response
          and options=options and this=this and meth=meth and url=url and data=data and w=w,
          OF k[folded True] valid ret]
      have m: "makeRequest this server meth url data options n d attempt w =
          (Fulfilled response, snd (attempt_once this server meth url data options (Suc attempt) w))"
        by (subst makeRequest_unfold) (simp add: Let_def acc(1))
      have "events (snd (makeRequest this server meth url data options n d attempt w)) = events w @ ?tail"
        unfolding m by (simp add: acc(2))
      moreover have "length (ajax_calls ?tail) = 1"
        by (simp split: option.splits)
      ultimately show ?thesis
        using True by (intro exI[of _ ?tail]) (auto intro: exI[of _ "[]"])
    next
      case False
      with less have lt: "Suc attempt < k" by simp
      show ?thesis
      proof (cases rule: makeRequest_cases[of this server meth url data options attempt w n d])
        case (fulfilled response')
        have "events (snd (makeRequest this server meth url data options n d attempt w)) = events w @ one"
          unfolding fulfilled(2) by (simp add: one)
        moreover from lt have "2 \<le> k - attempt" by simp
        ultimately show ?thesis
          using ac by (intro exI[of _ one]) simp
      next
        case (retry args)
        from step[OF retry(1,2)] lt obtain new where
          new: "events (snd (makeRequest this server meth url data options n d attempt w)) =
                  events w @ one @ [SetTimeout d] @ new"
          and le: "length (ajax_calls new) \<le> k - Suc attempt"
          and eq: "length (ajax_calls new) = k - Suc attempt \<longrightarrow>
             (\<exists>before. new = before @ ?tail \<and> length (ajax_calls before) = k - Suc (Suc attempt))"
          unfolding retry(3) by (auto simp: one)
        have "length (ajax_calls (one @ [SetTimeout d] @ new)) \<le> k - attempt"
          using ac le lt by simp
        moreover have "\<exists>before. one @ [SetTimeout d] @ new = before @ ?tail
            \<and> length (ajax_calls before) = k - Suc attempt"
          if "length (ajax_calls (one @ [SetTimeout d] @ new)) = k - attempt"
        proof -
          from that ac lt have "length (ajax_calls new) = k - Suc attempt" by simp
          with eq obtain before where b: "new = before @ ?tail"
            and bl: "length (ajax_calls before) = k - Suc (Suc attempt)" by blast
          have "one @ [SetTimeout d] @ new = (one @ [SetTimeout d] @ before) @ ?tail"
            by (simp add: b)
          moreover have "length (ajax_calls (one @ [SetTimeout d] @ before)) = k - Suc attempt"
            using ac bl lt by simp
          ultimately show ?thesis by blast
        qed
        ultimately show ?thesis using new by blast
      next
        case (stop args)
        define err where "err = (case error options of None \<Rightarrow> []
            | Some f \<Rightarrow> [ErrorCb (arg args 0) (arg args 1) (arg args 2)])"
        have "events (snd (makeRequest this server meth url data options n d attempt w)) =
            events w @ one @ err"
          unfolding stop(3) err_def by (simp add: give_up_events one cong: option.case_cong)
        moreover have "ajax_calls err = []"
          by (simp add: err_def split: option.splits)
        then have "length (ajax_calls (one @ err)) = 1"
          using ac by simp
        moreover from lt have "2 \<le> k - attempt" by simp
        ultimately show ?thesis
          by (intro exI[of _ "one @ err"]) simp
      qed
    qed
  qed
qed

text \<open>Attempts that fail up to one whose response is accepted.\<close>

lemma makeRequest_fail_then_accept:
  fixes w :: "'s world"
  assumes k: "server k = Done response"
    and valid: "passes_validation response"
    and ret: "\<forall>f st. success options = Some f \<longrightarrow> fst (f response st) = None"
  shows "attempt < k \<and> k \<le> last_attempt n attempt
       \<and> (\<forall>j. attempt < j \<and> j < k \<longrightarrow> attempt_fails (server j)) \<longrightarrow>
     events (snd (makeRequest this server meth url data options n d attempt w)) =
       events w
       @ concat (replicate (k - Suc attempt) [Ajax (settings this meth url data), SetTimeout d])
       @ Ajax (settings this meth url data)
         # (case success options of None \<Rightarrow> [] | Some f \<Rightarrow> [SuccessCb response])
     \<and> fst (makeRequest this server meth url data options n d attempt w) = Fulfilled response"
proof (induction attempt w rule: makeRequest_induct[where this=this and server=server and meth=meth
        and url=url and data=data and options=options and n=n and d=d])
  case (step attempt w)
  let ?s = "settings this meth url data"
  let ?tail = "Ajax ?s # (case success options of None \<Rightarrow> [] | Some f \<Rightarrow> [SuccessCb response])"
  show ?case
  proof (intro impI, elim conjE)
    assume less: "attempt < k" and le: "k \<le> last_attempt n attempt"
      and fails: "\<forall>j. attempt < j \<and> j < k \<longrightarrow> attempt_fails (server j)"
    show "events (snd (makeRequest this server meth url data options n d attempt w)) =
       events w @ concat (replicate (k - Suc attempt) [Ajax ?s, SetTimeout d]) @ ?tail
     \<and> fst (makeRequest this server meth url data options n d attempt w) = Fulfilled response"
    proof (cases "Suc attempt = k")
      case True
      note acc = attempt_once_accepts[where server=server and k="Suc attempt" and response=response
          and options=options and this=this and meth=meth and url=url and data=data and w=w,
          OF k[folded True] valid ret]
      have m: "makeRequest this server meth url data options n d attempt w =
          (Fulfilled response, snd (attempt_once this server meth url data options (Suc attempt) w))"
        by (subst makeRequest_unfold) (simp add: Let_def acc(1))
      show ?thesis
        unfolding m using True[symmetric] by (simp add: acc(2))
    next
      case False
      with less have lt: "Suc attempt < k" by simp
      then have f1: "attempt_fails (server (Suc attempt))"
        using fails by simp
      note once = attempt_once_fails[where server=server and k="Suc attempt" and this=this
          and meth=meth and url=url and data=data and options=options and w=w, OF f1]
      from lt le have more: "int (Suc attempt) < n"
        by (auto simp: last_attempt_def)
      have m: "makeRequest this server meth url data options n d attempt w =
         makeRequest this server meth url data options n d (Suc attempt)
           (emit (SetTimeout d) (console_log this
              (LogError (arg (rejection_args (server (Suc attempt))) 1)
                        (arg (rejection_args (server (Suc attempt))) 2))
              (snd (attempt_once this server meth url data options (Suc attempt) w))))"
        using more by (subst makeRequest_unfold) (simp add: Let_def once(1))
      have "Suc attempt < k \<and> k \<le> last_attempt n (Suc attempt)
          \<and> (\<forall>j. Suc attempt < j \<and> j < k \<longrightarrow> attempt_fails (server j))"
        using lt le fails last_attempt_retry(1)[OF more] by simp
      with step[OF once(1) more] have
        "events (snd (makeRequest this server meth url data options n d attempt w)) =
           (events w @ [Ajax ?s] @ [SetTimeout d])
           @ concat (replicate (k - Suc (Suc attempt)) [Ajax ?s, SetTimeout d]) @ ?tail"
        and r: "fst (makeRequest this server meth url data options n d attempt w) = Fulfilled response"
        unfolding m by (simp_all add: once(2))
      moreover have "k - Suc attempt = Suc (k - Suc (Suc attempt))"
        using lt by simp
      ultimately show ?thesis by simp
    qed
  qed
qed

text \<open>With a success callback that returns on the responses that pass, it runs exactly
  when the chain is fulfilled.\<close>

lemma attempt_once_Inl_fails:
  assumes "returns_when_accepted server options"
    and "fst (attempt_once this server meth url data options k w) = Inl args"
  shows "attempt_fails (server k)"
proof (cases "server k")
  case (Done r)
  show ?thesis
  proof (rule ccontr)
    assume "\<not> attempt_fails (server k)"
    with Done have v: "passes_validation r" by (simp add: attempt_fails_def)
    with assms(1) Done have "\<forall>f st. success options = Some f \<longrightarrow> fst (f r st) = None"
      by (auto simp: returns_when_accepted_def)
    from attempt_once_accepts(1)[where server=server and k=k and response=r and options=options
        and this=this and meth=meth and url=url and data=data and w=w, OF Done v this] assms(2)
    show False by simp
  qed
next
  case (Fail a)
  then show ?thesis by (simp add: attempt_fails_def)
qed

lemma makeRequest_success_once:
  assumes ret: "returns_when_accepted server options"
  shows "success_calls (events (snd (makeRequest this server meth url data options n d attempt w))) =
     success_calls (events w)
     @ (case fst (makeRequest this server meth url data options n d attempt w) of
          Fulfilled r \<Rightarrow> if success options = None then [] else [r]
        | Rejected args \<Rightarrow> [])"
proof (induction attempt w rule: makeRequest_induct[where this=this and server=server and meth=meth
        and url=url and data=data and options=options and n=n and d=d])
  case (step attempt w)
  show ?case
  proof (cases rule: makeRequest_cases[of this server meth url data options attempt w n d])
    case (fulfilled response)
    from attempt_once_Inr[OF fulfilled(1)] show ?thesis
      unfolding fulfilled(2) by (simp add: attempt_once_events)
  next
    case (retry args)
    note once = attempt_once_fails[where server=server and k="Suc attempt" and this=this and meth=meth and url=url and data=data and options=options and w=w, OF attempt_once_Inl_fails[OF ret retry(1)]]
    from step[OF retry(1,2)] show ?thesis
      unfolding retry(3) by (simp add: once)
  next
    case (stop args)
    note once = attempt_once_fails[where server=server and k="Suc attempt" and this=this and meth=meth and url=url and data=data and options=options and w=w, OF attempt_once_Inl_fails[OF ret stop(1)]]
    obtain a where "fst (give_up options (arg args 0) (arg args 1) (arg args 2)
           (console_log this (LogError (arg args 1) (arg args 2))
              (snd (attempt_once this server meth url data options (Suc attempt) w)))) = Rejected a"
      using give_up_rejects by blast
    then show ?thesis
      unfolding stop(3) by (simp add: give_up_events once split: option.splits)
  qed
qed

text \<open>The loop reads \<^verbatim>\<open>options.success\<close> and \<^verbatim>\<open>options.error\<close> and nothing else of the
  options.\<close>

lemma then_handler_finally_cb [simp]:
  "then_handler this (options\<lparr>finally_cb := g\<rparr>) response w = then_handler this options response w"
  by (simp add: then_handler_def Let_def cong: sum.case_cong if_cong)

lemma attempt_once_finally_cb [simp]:
  "attempt_once this server meth url data (options\<lparr>finally_cb := g\<rparr>) k w =
     attempt_once this server meth url data options k w"
  by (simp add: attempt_once_def Let_def cong: outcome.case_cong)

lemma give_up_finally_cb [simp]:
  "give_up (options\<lparr>finally_cb := g\<rparr>) xhr status err w = give_up options xhr status err w"
  by (simp add: give_up_def)

lemma makeRequest_finally_cb:
  "makeRequest this server meth url data (options\<lparr>finally_cb := g\<rparr>) n d attempt w =
     makeRequest this server meth url data options n d attempt w"
proof (induction attempt w rule: makeRequest_induct[where this=this and server=server and meth=meth
        and url=url and data=data and options=options and n=n and d=d])
  case (step attempt w)
  show ?case
  proof (cases rule: makeRequest_cases[of this server meth url data options attempt w n d])
    case (fulfilled response)
    then show ?thesis
      by (subst makeRequest_unfold) (simp add: Let_def)
  next
    case (retry args)
    from step[OF retry(1,2)] show ?thesis
      unfolding retry(3) using retry(1,2)
      by (subst makeRequest_unfold) (simp add: Let_def)
  next
    case (stop args)
    then show ?thesis
      by (subst makeRequest_unfold) (simp add: Let_def)
  qed
qed

subsection \<open>The whole request\<close>

lemma request_unfold:
  "request this server meth url data options w =
     (Inl TypeError,
      snd (makeRequest this server meth url data options (bound this options) (wait this options) 0 w))"
  by (simp add: request_def bound_def wait_def Let_def)

lemma request_events:
  "events (snd (request this server meth url data options w)) =
     events (snd (makeRequest this server meth url data options (bound this options) (wait this options) 0 w))"
  unfolding request_unfold by simp

lemma request_new_events:
  "\<exists>new. events (snd (makeRequest this server meth url data options (bound this options) (wait this options) 0 w))
           = events w @ new
        \<and> new_events w (snd (request this server meth url data options w)) = new"
proof -
  obtain new where "events (snd (makeRequest this server meth url data options (bound this options) (wait this options) 0 w))
           = events w @ new"
    using makeRequest_prefix by blast
  then show ?thesis
    by (intro exI[of _ new]) (simp add: request_events new_events_def)
qed

lemma last_attempt_0: "last_attempt n 0 = nat (max 1 n)"
  by (auto simp: last_attempt_def)

lemma ajax_calls_rounds [simp]:
  "ajax_calls (concat (replicate k [Ajax s, SetTimeout d])) = replicate k s"
  by (induction k) simp_all

lemma request_all_fail:
  fixes w :: "'s world"
  assumes fails: "\<forall>k. 1 \<le> k \<and> k \<le> nat (max 1 (bound this options)) \<longrightarrow> attempt_fails (server k)"
  shows "new_events w (snd (request this server meth url data options w)) =
           concat (replicate (nat (max 1 (bound this options)) - 1)
             [Ajax (settings this meth url data), SetTimeout (wait this options)])
           @ [Ajax (settings this meth url data)]
           @ (case error options of None \<Rightarrow> []
              | Some f \<Rightarrow>
                  [ErrorCb (arg (rejection_args (server (nat (max 1 (bound this options))))) 0)
                           (arg (rejection_args (server (nat (max 1 (bound this options))))) 1)
                           (arg (rejection_args (server (nat (max 1 (bound this options))))) 2)])"
    and "app (snd (request this server meth url data options w)) =
       (case error options of
          None \<Rightarrow> app w
        | Some f \<Rightarrow> snd (f (arg (rejection_args (server (nat (max 1 (bound this options))))) 0)
                          (arg (rejection_args (server (nat (max 1 (bound this options))))) 1)
                          (arg (rejection_args (server (nat (max 1 (bound this options))))) 2) (app w)))"
proof -
  let ?n = "bound this options" and ?d = "wait this options"
  let ?m = "makeRequest this server meth url data options ?n ?d 0 w"
  have "\<forall>k. 0 < k \<and> k \<le> last_attempt ?n 0 \<longrightarrow> attempt_fails (server k)"
    using fails by (simp add: last_attempt_0 Suc_le_eq)
  with makeRequest_all_fail[where attempt=0 and n="?n" and server=server and this=this and meth=meth and url=url and data=data and d="?d" and options=options and w=w]
  have ev: "events (snd ?m) =
     events w
     @ concat (replicate (last_attempt ?n 0 - Suc 0) [Ajax (settings this meth url data), SetTimeout ?d])
     @ [Ajax (settings this meth url data)]
     @ (case error options of None \<Rightarrow> []
        | Some f \<Rightarrow> [ErrorCb (arg (rejection_args (server (last_attempt ?n 0))) 0)
                             (arg (rejection_args (server (last_attempt ?n 0))) 1)
                             (arg (rejection_args (server (last_attempt ?n 0))) 2)])"
    and ap: "app (snd ?m) =
       (case error options of
          None \<Rightarrow> app w
        | Some f \<Rightarrow> snd (f (arg (rejection_args (server (last_attempt ?n 0))) 0)
                          (arg (rejection_args (server (last_attempt ?n 0))) 1)
                          (arg (rejection_args (server (last_attempt ?n 0))) 2) (app w)))"
    by blast+
  show "new_events w (snd (request this server meth url data options w)) =
           concat (replicate (nat (max 1 ?n) - 1) [Ajax (settings this meth url data), SetTimeout ?d])
           @ [Ajax (settings this meth url data)]
           @ (case error options of None \<Rightarrow> []
              | Some f \<Rightarrow>
                  [ErrorCb (arg (rejection_args (server (nat (max 1 ?n)))) 0)
                           (arg (rejection_args (server (nat (max 1 ?n)))) 1)
                           (arg (rejection_args (server (nat (max 1 ?n)))) 2)])"
    by (rule new_events_append) (simp add: request_events ev[unfolded last_attempt_0])
  show "app (snd (request this server meth url data options w)) =
       (case error options of
          None \<Rightarrow> app w
        | Some f \<Rightarrow> snd (f (arg (rejection_args (server (nat (max 1 ?n)))) 0)
                          (arg (rejection_args (server (nat (max 1 ?n)))) 1)
                          (arg (rejection_args (server (nat (max 1 ?n)))) 2) (app w)))"
    unfolding request_unfold using ap[unfolded last_attempt_0] by simp
qed

lemma request_net:
  fixes w :: "'s world"
  shows "\<exists>k < nat (max 1 (bound this options)).
     net_events (new_events w (snd (request this server meth url data options w))) =
       concat (replicate k [Ajax (settings this meth url data), SetTimeout (wait this options)])
       @ [Ajax (settings this meth url data)]"
proof -
  let ?n = "bound this options" and ?d = "wait this options"
  let ?m = "makeRequest this server meth url data options ?n ?d 0 w"
  obtain new where new: "events (snd ?m) = events w @ new"
    and req: "new_events w (snd (request this server meth url data options w)) = new"
    using request_new_events by blast
  obtain k where k: "k \<le> last_attempt ?n 0 - Suc 0"
    and net: "net_events (events (snd ?m)) = net_events (events w)
       @ concat (replicate k [Ajax (settings this meth url data), SetTimeout ?d])
       @ [Ajax (settings this meth url data)]"
    using makeRequest_net by blast
  from net have "net_events new = concat (replicate k [Ajax (settings this meth url data), SetTimeout ?d])
       @ [Ajax (settings this meth url data)]"
    unfolding new by simp
  moreover have "k < nat (max 1 ?n)"
    using k by (auto simp: last_attempt_0)
  ultimately show ?thesis
    unfolding req by (intro exI[of _ k]) simp
qed

lemma request_success_calls:
  fixes w :: "'s world"
  shows "set (success_calls (new_events w (snd (request this server meth url data options w))))
       \<subseteq> {r. \<exists>k. 1 \<le> k \<and> k \<le> nat (max 1 (bound this options)) \<and> server k = Done r \<and> passes_validation r}"
    and "length (success_calls (new_events w (snd (request this server meth url data options w))))
       \<le> length (ajax_calls (new_events w (snd (request this server meth url data options w))))"
    and "success_calls (new_events w (snd (request this server meth url data options w))) =
       (if success options = None then []
        else accepted server 0
               (length (ajax_calls (new_events w (snd (request this server meth url data options w))))))"
proof -
  let ?n = "bound this options" and ?d = "wait this options"
  let ?m = "makeRequest this server meth url data options ?n ?d 0 w"
  obtain new where new: "events (snd ?m) = events w @ new"
    and req: "new_events w (snd (request this server meth url data options w)) = new"
    using request_new_events by blast
  obtain new' where "events (snd ?m) = events w @ new'"
    and "set (success_calls new')
          \<subseteq> {r. \<exists>k. 0 < k \<and> k \<le> last_attempt ?n 0 \<and> server k = Done r \<and> passes_validation r}"
    using makeRequest_success_valid by blast
  with new have "set (success_calls new)
          \<subseteq> {r. \<exists>k. 0 < k \<and> k \<le> last_attempt ?n 0 \<and> server k = Done r \<and> passes_validation r}"
    by simp
  then show "set (success_calls (new_events w (snd (request this server meth url data options w))))
       \<subseteq> {r. \<exists>k. 1 \<le> k \<and> k \<le> nat (max 1 ?n) \<and> server k = Done r \<and> passes_validation r}"
    unfolding req by (auto simp: last_attempt_0 Suc_le_eq)
  have "length (success_calls (events (snd ?m))) + length (ajax_calls (events w))
     \<le> length (success_calls (events w)) + length (ajax_calls (events (snd ?m)))"
    by (rule makeRequest_success_per_call)
  then show "length (success_calls (new_events w (snd (request this server meth url data options w))))
       \<le> length (ajax_calls (new_events w (snd (request this server meth url data options w))))"
    unfolding req new by simp
  obtain new'' where "events (snd ?m) = events w @ new''"
    and "success_calls new'' =
          (if success options = None then [] else accepted server 0 (length (ajax_calls new'')))"
    using makeRequest_success_exact by blast
  with new show "success_calls (new_events w (snd (request this server meth url data options w))) =
       (if success options = None then []
        else accepted server 0
               (length (ajax_calls (new_events w (snd (request this server meth url data options w))))))"
    unfolding req by simp
qed

lemma request_stops:
  fixes w :: "'s world"
  assumes "server k = Done response"
    and "passes_validation response"
    and "\<forall>f st. success options = Some f \<longrightarrow> fst (f response st) = None"
    and "1 \<le> k"
  shows "length (ajax_calls (new_events w (snd (request this server meth url data options w)))) \<le> k"
    and "k \<le> length (ajax_calls (new_events w (snd (request this server meth url data options w)))) \<Longrightarrow>
         \<exists>before. new_events w (snd (request this server meth url data options w)) =
                    before @ Ajax (settings this meth url data)
                      # (case success options of None \<Rightarrow> [] | Some f \<Rightarrow> [SuccessCb response])
                \<and> length (ajax_calls before) = k - 1"
proof -
  let ?n = "bound this options" and ?d = "wait this options"
  let ?m = "makeRequest this server meth url data options ?n ?d 0 w"
  obtain new where new: "events (snd ?m) = events w @ new"
    and req: "new_events w (snd (request this server meth url data options w)) = new"
    using request_new_events by blast
  from makeRequest_stops[where server=server and k=k and response=response and options=options
      and attempt=0 and w=w and this=this and meth=meth and url=url and data=data
      and n="?n" and d="?d", OF assms(1,2,3)] assms(4)
  obtain new' where new': "events (snd ?m) = events w @ new'"
    and le: "length (ajax_calls new') \<le> k"
    and eq: "length (ajax_calls new') = k \<longrightarrow>
             (\<exists>before. new' = before @ Ajax (settings this meth url data)
                  # (case success options of None \<Rightarrow> [] | Some f \<Rightarrow> [SuccessCb response])
                \<and> length (ajax_calls before) = k - Suc 0)"
    by auto
  from new new' have same: "new' = new" by simp
  show "length (ajax_calls (new_events w (snd (request this server meth url data options w)))) \<le> k"
    unfolding req using le same by simp
  show "\<exists>before. new_events w (snd (request this server meth url data options w)) =
                    before @ Ajax (settings this meth url data)
                      # (case success options of None \<Rightarrow> [] | Some f \<Rightarrow> [SuccessCb response])
                \<and> length (ajax_calls before) = k - 1"
    if "k \<le> length (ajax_calls (new_events w (snd (request this server meth url data options w))))"
    using that le eq same unfolding req by simp
qed

lemma request_fail_then_accept:
  fixes w :: "'s world"
  assumes "server k = Done response"
    and "passes_validation response"
    and "\<forall>f st. success options = Some f \<longrightarrow> fst (f response st) = None"
    and "1 \<le> k" and "k \<le> nat (max 1 (bound this options))"
    and "\<forall>j. 1 \<le> j \<and> j < k \<longrightarrow> attempt_fails (server j)"
  shows "new_events w (snd (request this server meth url data options w)) =
           concat (replicate (k - 1) [Ajax (settings this meth url data), SetTimeout (wait this options)])
           @ Ajax (settings this meth url data)
             # (case success options of None \<Rightarrow> [] | Some f \<Rightarrow> [SuccessCb response])"
proof -
  let ?n = "bound this options" and ?d = "wait this options"
  have "0 < k \<and> k \<le> last_attempt ?n 0 \<and> (\<forall>j. 0 < j \<and> j < k \<longrightarrow> attempt_fails (server j))"
    using assms(4,5,6) by (simp add: last_attempt_0 Suc_le_eq)
  with makeRequest_fail_then_accept[where server=server and k=k and response=response
      and options=options and attempt=0 and w=w and this=this
      and meth=meth and url=url and data=data and n="?n" and d="?d", OF assms(1,2,3)]
  have "events (snd (makeRequest this server meth url data options ?n ?d 0 w)) =
       events w
       @ concat (replicate (k - Suc 0) [Ajax (settings this meth url data), SetTimeout ?d])
       @ Ajax (settings this meth url data)
         # (case success options of None \<Rightarrow> [] | Some f \<Rightarrow> [SuccessCb response])"
    by blast
  then show ?thesis
    by (intro new_events_append) (simp add: request_events)
qed

lemma request_success_once:
  fixes w :: "'s world"
  assumes "returns_when_accepted server options"
  shows "length (success_calls (new_events w (snd (request this server meth url data options w)))) \<le> 1"
proof -
  let ?n = "bound this options" and ?d = "wait this options"
  let ?m = "makeRequest this server meth url data options ?n ?d 0 w"
  obtain new where new: "events (snd ?m) = events w @ new"
    and req: "new_events w (snd (request this server meth url data options w)) = new"
    using request_new_events by blast
  show ?thesis
    using makeRequest_success_once[OF assms, of this meth url data ?n ?d 0 w]
    unfolding req new by (simp split: settled.splits if_splits)
qed

lemma request_finally_cb:
  "request this server meth url data (options\<lparr>finally_cb := g\<rparr>) w =
     request this server meth url data options w"
  by (simp add: request_unfold makeRequest_finally_cb bound_def wait_def)

lemma makeRequest_fulfilled:
  fixes w :: "'s world"
  assumes "server (Suc attempt) = Done response"
    and "passes_validation response"
    and "\<forall>f. success options = Some f \<longrightarrow> fst (f response (app w)) = None"
  shows "makeRequest this server meth url data options n d attempt w =
     (Fulfilled response,
      (case success options of
         None \<Rightarrow> emit (Ajax (settings this meth url data))
                   (console_log this (LogRequest meth url (Suc attempt)) w)
       | Some f \<Rightarrow>
           (emit (SuccessCb response)
              (emit (Ajax (settings this meth url data))
                 (console_log this (LogRequest meth url (Suc attempt)) w)))
           \<lparr>app := snd (f response (app w))\<rparr>))"
  using assms
  by (subst makeRequest_unfold)
     (auto simp: attempt_once_def Let_def then_handler_valid split: option.splits)

lemma valid_false:
  "get_prop response k = Inr (JBool b) \<Longrightarrow> typeof response = ''object''"
  by (cases response) auto

subsection \<open>The form and the page\<close>

lemma fold_assign:
  "fold (\<lambda>item data. assign data (fst item) (snd item)) xs m k =
     (if k = ''__proto__'' then m k
      else (case map_of (rev xs) k of Some v \<Rightarrow> Some v | None \<Rightarrow> m k))"
  by (induction xs arbitrary: m) (auto simp: assign_def map_add_def split: option.splits)

text \<open>What \<open>append_forest\<close> does to the elements with the id: it finds none exactly when
  there is none; otherwise the first of them gets the new nodes, and the count grows by
  what the new nodes bring.\<close>

lemma has_id_Element [simp]: "has_id i (Element t as cs) = (map_of as ''id'' = Some i)"
  and has_id_TextNode [simp]: "\<not> has_id i (TextNode s)"
  by (simp_all add: has_id_def)












lemma count_container [simp]: "count_id ''toast-container'' [container_element] = 1"
  by (simp add: count_id_def container_element_def)

lemma count_id_append [simp]: "count_id i (xs @ ys) = count_id i xs + count_id i ys"
  by (simp add: count_id_def)



lemma ready_throws:
  "new_GlobalEvents cookie = Inl exn \<Longrightarrow> ready cookie p = (Inl exn, p)"
  by (simp add: ready_def)

subsection \<open>The CSRF token\<close>

lemma splitStr_nonempty [simp]: "splitStr sep s \<noteq> []"
  by (induction s) (auto split: list.splits)

lemma splitStr_no_sep: "sep \<notin> set s \<Longrightarrow> splitStr sep s = [s]"
  by (induction s) auto

lemma splitStr_append:
  "sep \<notin> set a \<Longrightarrow> splitStr sep (a @ sep # b) = a # splitStr sep b"
  by (induction a) auto

lemma white_space_ends:
  "w \<in> set white_space \<Longrightarrow>
   w \<noteq> [] \<and> \<not> (33 \<le> (of_char (hd w) :: nat) \<and> (of_char (hd w) :: nat) \<le> 126)
           \<and> \<not> (33 \<le> (of_char (last w) :: nat) \<and> (of_char (last w) :: nat) \<le> 126)"
  unfolding white_space_def by (elim set_ConsD[elim_format] disjE; simp)

lemma trimStart_plain:
  assumes "s = [] \<or> (33 \<le> (of_char (hd s) :: nat) \<and> (of_char (hd s) :: nat) \<le> 126)"
  shows "trimStart s = s"
proof -
  have "List.find (\<lambda>w. take (length w) s = w) white_space = None"
    unfolding find_None_iff
  proof (intro notI, elim exE conjE)
    fix w
    assume w: "w \<in> set white_space" and t: "take (length w) s = w"
    from white_space_ends[OF w] have ne: "w \<noteq> []" by simp
    with t have "s \<noteq> []" by auto
    moreover from t ne have "hd s = hd w"
      by (metis hd_take length_greater_0_conv)
    ultimately show False using assms white_space_ends[OF w] by simp
  qed
  then show ?thesis by (subst trimStart.simps) simp
qed

lemma trimEnd_plain:
  assumes "s = [] \<or> (33 \<le> (of_char (last s) :: nat) \<and> (of_char (last s) :: nat) \<le> 126)"
  shows "trimEnd s = s"
proof -
  have "List.find (\<lambda>w. length w \<le> length s \<and> drop (length s - length w) s = w) white_space = None"
    unfolding find_None_iff
  proof (intro notI, elim exE conjE)
    fix w
    assume w: "w \<in> set white_space" and l: "length w \<le> length s"
      and t: "drop (length s - length w) s = w"
    from white_space_ends[OF w] have ne: "w \<noteq> []" by simp
    with l have s: "s \<noteq> []" by auto
    from t ne have "drop (length s - length w) s \<noteq> []" by simp
    then have "last (drop (length s - length w) s) = last s"
      by (intro last_drop) simp
    with t have "last s = last w" by simp
    with s show False using assms white_space_ends[OF w] by simp
  qed
  then show ?thesis by (subst trimEnd.simps) simp
qed

lemma trimStart_space: "trimStart (CHR '' '' # s) = trimStart s"
proof -
  have "List.find (\<lambda>w. take (length w) (CHR '' '' # s) = w) white_space = Some '' ''"
    by (simp add: white_space_def)
  then show ?thesis
    by (subst trimStart.simps) simp
qed

lemma trim_plain:
  assumes "s \<noteq> []" and "list_all (\<lambda>c. 33 \<le> (of_char c :: nat) \<and> (of_char c :: nat) \<le> 126) s"
  shows "trim s = s" and "trim (CHR '' '' # s) = s"
proof -
  from assms have "33 \<le> (of_char (hd s) :: nat) \<and> (of_char (hd s) :: nat) \<le> 126"
    and "33 \<le> (of_char (last s) :: nat) \<and> (of_char (last s) :: nat) \<le> 126"
    by (auto simp: list_all_iff)
  then have "trimStart s = s" and "trimEnd s = s"
    using trimStart_plain[of s] trimEnd_plain[of s] by blast+
  then show "trim s = s" and "trim (CHR '' '' # s) = s"
    by (simp_all add: trim_def trimStart_space)
qed

lemma trim_empty: "trim [] = []"
  by (simp add: trim_def trimStart_plain trimEnd_plain)

lemma cookie_loop_none:
  "\<forall>x \<in> set cookies. take (length name) (trim x) \<noteq> name \<Longrightarrow> cookie_loop name cookies = []"
  by (induction cookies) (auto simp: Let_def)

lemma plain_piece:
  assumes "plain_text n" "plain_text v"
  shows "CHR '';'' \<notin> set (piece (n, v))"
    and "list_all (\<lambda>c. 33 \<le> (of_char c :: nat) \<and> (of_char c :: nat) \<le> 126) (piece (n, v))"
    and "piece (n, v) \<noteq> []"
  using assms by (auto simp: plain_text_def piece_def list_all_iff)

lemma plain_text_no_escape: "plain_text s \<Longrightarrow> CHR ''%'' \<notin> set s"
  by (simp add: plain_text_def list_all_iff) blast

lemma render_no_escape: "plain_store jar \<Longrightarrow> CHR ''%'' \<notin> set (render_cookies jar)"
proof (induction jar rule: render_cookies.induct)
  case 1
  then show ?case by simp
next
  case (2 n v)
  then have "CHR ''%'' \<notin> set n" and "CHR ''%'' \<notin> set v"
    by (simp_all add: plain_store_def plain_text_no_escape)
  then show ?case by simp
next
  case (3 n v nv rest)
  from 3(2) have "CHR ''%'' \<notin> set n" and "CHR ''%'' \<notin> set v" and "plain_store (nv # rest)"
    by (simp_all add: plain_store_def plain_text_no_escape)
  with 3(1) show ?case by simp
qed

lemma decode_plain: "CHR ''%'' \<notin> set s \<Longrightarrow> decodeURIComponent s = Inr s"
  by (induction s) (auto simp: prepend_def)

lemma render_cookies_Cons:
  "render_cookies ((n, v) # rest) =
     piece (n, v) @ (case rest of [] \<Rightarrow> [] | _ \<Rightarrow> CHR '';'' # CHR '' '' # render_cookies rest)"
  by (cases rest) (auto simp: piece_def)

lemma splitStr_space:
  "splitStr CHR '';'' (CHR '' '' # s) =
     (case splitStr CHR '';'' s of [] \<Rightarrow> [[CHR '' '']] | w # ws \<Rightarrow> (CHR '' '' # w) # ws)"
  by simp

lemma split_render:
  "plain_store jar \<Longrightarrow>
   splitStr CHR '';'' (render_cookies jar) =
     (case jar of [] \<Rightarrow> [[]] | nv # rest \<Rightarrow> piece nv # map (\<lambda>nv. CHR '' '' # piece nv) rest)"
proof (induction jar rule: render_cookies.induct)
  case 1
  then show ?case by simp
next
  case (2 n v)
  then have p: "plain_text n" "plain_text v"
    by (simp_all add: plain_store_def)
  have "render_cookies [(n, v)] = piece (n, v)"
    by (simp add: piece_def)
  then show ?case
    using splitStr_no_sep[OF plain_piece(1)[OF p]] by simp
next
  case (3 n v nv rest)
  from 3(2) have p: "plain_text n" "plain_text v" and rest: "plain_store (nv # rest)"
    by (simp_all add: plain_store_def)
  have e: "render_cookies ((n, v) # nv # rest) =
      piece (n, v) @ CHR '';'' # (CHR '' '' # render_cookies (nv # rest))"
    by (simp add: render_cookies_Cons)
  have "splitStr CHR '';'' (render_cookies ((n, v) # nv # rest)) =
      piece (n, v) # splitStr CHR '';'' (CHR '' '' # render_cookies (nv # rest))"
    unfolding e by (rule splitStr_append) (rule plain_piece(1)[OF p])
  also have "splitStr CHR '';'' (CHR '' '' # render_cookies (nv # rest)) =
      (CHR '' '' # piece nv) # map (\<lambda>nv. CHR '' '' # piece nv) rest"
    unfolding splitStr_space 3(1)[OF rest] by simp
  finally show ?case by simp
qed

lemma piece_starts:
  assumes "CHR ''='' \<notin> set n"
  shows "take 10 (piece (n, v)) = ''csrftoken='' \<longleftrightarrow> n = ''csrftoken''"
proof
  assume t: "take 10 (piece (n, v)) = ''csrftoken=''"
  have "piece (n, v) = take 10 (piece (n, v)) @ drop 10 (piece (n, v))" by simp
  with t have "n @ CHR ''='' # v = ''csrftoken'' @ CHR ''='' # drop 10 (piece (n, v))"
    by (simp add: piece_def)
  then have "takeWhile (\<lambda>c. c \<noteq> CHR ''='') (n @ CHR ''='' # v) =
             takeWhile (\<lambda>c. c \<noteq> CHR ''='') (''csrftoken'' @ CHR ''='' # drop 10 (piece (n, v)))"
    by simp
  moreover have "takeWhile (\<lambda>c. c \<noteq> CHR ''='') (n @ CHR ''='' # v) = n"
    using assms by (subst takeWhile_append2) auto
  moreover have "takeWhile (\<lambda>c. c \<noteq> CHR ''='') (''csrftoken'' @ CHR ''='' # drop 10 (piece (n, v))) = ''csrftoken''"
    by (subst takeWhile_append2) auto
  ultimately show "n = ''csrftoken''" by simp
next
  assume "n = ''csrftoken''"
  then show "take 10 (piece (n, v)) = ''csrftoken=''" by (simp add: piece_def)
qed

lemma cookie_loop_step:
  assumes "trim x = piece (n, v)" and "CHR ''='' \<notin> set n"
  shows "cookie_loop ''csrftoken='' (x # xs) =
           (if n = ''csrftoken'' then v else cookie_loop ''csrftoken='' xs)"
proof (cases "n = ''csrftoken''")
  case True
  then have "take 10 (piece (n, v)) = ''csrftoken=''" and "drop 10 (piece (n, v)) = v"
    by (simp_all add: piece_def)
  with True show ?thesis by (simp add: assms(1) Let_def eval_nat_numeral)
next
  case False
  with piece_starts[OF assms(2), of v] have "take 10 (piece (n, v)) \<noteq> ''csrftoken=''"
    by simp
  with False show ?thesis by (simp add: assms(1) Let_def eval_nat_numeral)
qed

lemma cookie_loop_store:
  "plain_store jar \<Longrightarrow>
   cookie_loop ''csrftoken='' (map (\<lambda>nv. CHR '' '' # piece nv) jar) =
     (case map_of jar ''csrftoken'' of None \<Rightarrow> [] | Some v \<Rightarrow> v)"
proof (induction jar)
  case Nil
  then show ?case by simp
next
  case (Cons nv jar)
  obtain n v where nv: "nv = (n, v)" by (cases nv)
  from Cons(2) have p: "plain_text n" "plain_text v" "CHR ''='' \<notin> set n" and rest: "plain_store jar"
    by (simp_all add: plain_store_def nv)
  have tr: "trim (CHR '' '' # piece (n, v)) = piece (n, v)"
    by (rule trim_plain(2)[OF plain_piece(3)[OF p(1,2)] plain_piece(2)[OF p(1,2)]])
  have "cookie_loop ''csrftoken='' (map (\<lambda>nv. CHR '' '' # piece nv) (nv # jar)) =
      (if n = ''csrftoken'' then v
       else cookie_loop ''csrftoken='' (map (\<lambda>nv. CHR '' '' # piece nv) jar))"
    unfolding nv list.map by (rule cookie_loop_step[OF tr p(3)])
  then show ?case
    using Cons(1)[OF rest] by (simp add: nv)
qed

lemma getCsrfToken_decoded:
  "decodeURIComponent cookie = Inr decodedCookie \<Longrightarrow>
   getCsrfToken cookie = Inr (cookie_loop ''csrftoken='' (splitStr CHR '';'' decodedCookie))"
  by (simp add: getCsrfToken_def)

lemma getCsrfToken_throws:
  "decodeURIComponent cookie = Inl exn \<Longrightarrow> getCsrfToken cookie = Inl exn"
  by (simp add: getCsrfToken_def)

lemma getCsrfToken_store:
  assumes "plain_store jar"
  shows "getCsrfToken (render_cookies jar) =
           Inr (case map_of jar ''csrftoken'' of None \<Rightarrow> [] | Some v \<Rightarrow> v)"
proof (cases jar)
  case Nil
  then show ?thesis
    by (simp add: getCsrfToken_def Let_def trim_empty)
next
  case (Cons nv rest)
  obtain n v where nv: "nv = (n, v)" by (cases nv)
  from assms(1) have p: "plain_text n" "plain_text v" "CHR ''='' \<notin> set n" and rest: "plain_store rest"
    by (simp_all add: plain_store_def nv Cons)
  have tr: "trim (piece (n, v)) = piece (n, v)"
    by (rule trim_plain(1)[OF plain_piece(3)[OF p(1,2)] plain_piece(2)[OF p(1,2)]])
  have "getCsrfToken (render_cookies jar) =
      Inr (cookie_loop ''csrftoken='' (piece (n, v) # map (\<lambda>nv. CHR '' '' # piece nv) rest))"
    using split_render[OF assms(1)] decode_plain[OF render_no_escape[OF assms]]
    by (simp add: getCsrfToken_def Let_def Cons nv)
  also have "cookie_loop ''csrftoken='' (piece (n, v) # map (\<lambda>nv. CHR '' '' # piece nv) rest) =
      (if n = ''csrftoken'' then v
       else cookie_loop ''csrftoken='' (map (\<lambda>nv. CHR '' '' # piece nv) rest))"
    by (rule cookie_loop_step[OF tr p(3)])
  finally show ?thesis
    using cookie_loop_store[OF rest] by (simp add: Cons nv)
qed

lemma new_AjaxHandler_Inr:
  assumes "new_AjaxHandler given cookie = Inr this"
  shows "getCsrfToken cookie = Inr (csrfToken this)"
    and "given = None \<Longrightarrow> defaultRetries this = 3 \<and> defaultDelay this = 500 \<and> \<not> debug this"
  using assms
  by (auto simp: new_AjaxHandler_def no_handler_options_def Let_def split: sum.splits)

lemma new_GlobalEvents_Inr:
  assumes "new_GlobalEvents cookie = Inr App"
  shows "getCsrfToken cookie = Inr (csrfToken (ajax App))"
    and "defaultRetries (ajax App) = 3" and "defaultDelay (ajax App) = 500" and "debug (ajax App)"
  using assms
  by (auto simp: new_GlobalEvents_def new_AjaxHandler_def Let_def split: sum.splits)

lemma example_handler_built:
  "new_AjaxHandler None ''sessionid=1; csrftoken=abc'' = Inr example_handler"
proof -
  have "plain_store [(''sessionid'', ''1''), (''csrftoken'', ''abc'')]"
    by (simp add: plain_store_def plain_text_def)
  from getCsrfToken_store[OF this]
  have "getCsrfToken ''sessionid=1; csrftoken=abc'' = Inr ''abc''" by simp
  then show ?thesis
    by (simp add: new_AjaxHandler_def no_handler_options_def example_handler_def)
qed


lemma ajax_calls_net [simp]: "ajax_calls (net_events tr) = ajax_calls tr"
  by (induction tr) auto

lemma request_ajax_calls:
  fixes w :: "'s world"
  shows "\<exists>k < nat (max 1 (bound this options)).
     ajax_calls (new_events w (snd (request this server meth url data options w))) =
       replicate (Suc k) (settings this meth url data)"
proof -
  obtain k where k: "k < nat (max 1 (bound this options))"
    and net: "net_events (new_events w (snd (request this server meth url data options w))) =
       concat (replicate k [Ajax (settings this meth url data), SetTimeout (wait this options)])
       @ [Ajax (settings this meth url data)]"
    using request_net by blast
  have "ajax_calls (net_events (new_events w (snd (request this server meth url data options w)))) =
       replicate (Suc k) (settings this meth url data)"
    unfolding net by (simp add: replicate_append_same)
  with k show ?thesis by auto
qed

text \<open>What holds of the token: it is read in the constructor, and every transport call of
  every request of the handler carries it.\<close>

lemma csrf_header_on_every_call:
  fixes w :: "'s world"
  assumes "new_AjaxHandler given cookie = Inr this"
  shows "getCsrfToken cookie = Inr (csrfToken this)"
    and "\<exists>k. ajax_calls (new_events w (snd (request this server meth url data options w))) =
              replicate (Suc k) (settings this meth url data)"
    and "s_headers (settings this meth url data) = [(''X-CSRFToken'', csrfToken this)]"
proof -
  show "getCsrfToken cookie = Inr (csrfToken this)"
    by (rule new_AjaxHandler_Inr(1)[OF assms])
  show "\<exists>k. ajax_calls (new_events w (snd (request this server meth url data options w))) =
              replicate (Suc k) (settings this meth url data)"
    using request_ajax_calls[where this=this and w=w and server=server and meth=meth and url=url
        and data=data and options=options]
    by blast
  show "s_headers (settings this meth url data) = [(''X-CSRFToken'', csrfToken this)]"
    by (simp add: settings_def)
qed

section \<open>The claims\<close>

text \<open>
  C1 (as amended). A call to \<open>request\<close> all of whose attempts fail, by a rejected
  transport call or by a response that does not pass the validation, calls the transport
  exactly \<open>max 1 N\<close> times for the retry bound \<open>N\<close> it runs with (\<open>N\<close> times when
  \<open>N \<ge> 1\<close>, once when \<open>N \<le> 0\<close>), waits the delay between two calls, and runs the
  error callback once, after the last call, on the arguments of the last failure. The
  kind of failure plays no part: only the count decides.
\<close>

theorem request_retries_by_count:
  fixes w :: "'s world"
  assumes "\<forall>k. 1 \<le> k \<and> k \<le> nat (max 1 (bound this options)) \<longrightarrow> attempt_fails (server k)"
  shows "length (ajax_calls (new_events w (snd (request this server meth url data options w))))
           = nat (max 1 (bound this options))
       \<and> new_events w (snd (request this server meth url data options w)) =
           concat (replicate (nat (max 1 (bound this options)) - 1)
             [Ajax (settings this meth url data), SetTimeout (wait this options)])
           @ [Ajax (settings this meth url data)]
           @ (case error options of None \<Rightarrow> []
              | Some f \<Rightarrow>
                  [ErrorCb (arg (rejection_args (server (nat (max 1 (bound this options))))) 0)
                           (arg (rejection_args (server (nat (max 1 (bound this options))))) 1)
                           (arg (rejection_args (server (nat (max 1 (bound this options))))) 2)])"
proof -
  note all = request_all_fail(1)[OF assms, where w=w and meth=meth and url=url and data=data]
  have "length (ajax_calls (new_events w (snd (request this server meth url data options w))))
           = nat (max 1 (bound this options))"
    unfolding all by (simp split: option.splits)
  with all show ?thesis by blast
qed

text \<open>Two attempts, a network failure and then a malformed body, with the bound 2.\<close>

theorem request_retries_by_count_witness:
  "length (ajax_calls (new_events example_world (snd (request example_handler
      (\<lambda>k. if k = 1 then Fail [JNull, JStr ''error'', JStr ''Not Found''] else Done (JStr ''oops''))
      POST None Map.empty
      (no_options\<lparr>retries := Some 2, error := Some (\<lambda>x s e st. (None, st))\<rparr>) example_world)))) = 2
   \<and> new_events example_world (snd (request example_handler
      (\<lambda>k. if k = 1 then Fail [JNull, JStr ''error'', JStr ''Not Found''] else Done (JStr ''oops''))
      POST None Map.empty
      (no_options\<lparr>retries := Some 2, error := Some (\<lambda>x s e st. (None, st))\<rparr>) example_world)) =
     [Ajax (settings example_handler POST None Map.empty), SetTimeout 500,
      Ajax (settings example_handler POST None Map.empty),
      ErrorCb invalid_json JUndefined JUndefined]"
  using request_retries_by_count[where this=example_handler
      and options="no_options\<lparr>retries := Some 2, error := Some (\<lambda>x s e st. (None, st))\<rparr>"
      and server="\<lambda>k. if k = 1 then Fail [JNull, JStr ''error'', JStr ''Not Found''] else Done (JStr ''oops'')"
      and w=example_world and meth=POST and url=None and data=Map.empty]
  by (simp add: bound_def wait_def no_options_def attempt_fails_def passes_validation_def
        rejection_args_def arg_def example_handler_def eval_nat_numeral)

text \<open>With the bound 0 the transport is still called once: the bound is tested only
  after an attempt.\<close>

theorem request_zero_retries_counterexample:
  "bound example_handler (no_options\<lparr>retries := Some 0\<rparr>) = 0
   \<and> length (ajax_calls (new_events example_world (snd (request example_handler (\<lambda>k. Fail [])
        GET None Map.empty (no_options\<lparr>retries := Some 0\<rparr>) example_world)))) = 1"
  by code_simp




text \<open>
  C3 does not hold of the code. \<open>request\<close> never runs \<^verbatim>\<open>options.finally\<close>: the call
  \<^verbatim>\<open>makeRequest().finally(...)\<close> is made on a jQuery promise, which has no such method,
  so \<open>request\<close> throws a \<^verbatim>\<open>TypeError\<close> whatever the server answers and whatever the
  options are, and what it does with a finally callback is what it does without one. In
  the two runs below, one that ends in a success and one that ends in a failure, the
  callback would set the state to \<open>True\<close>; the state stays \<open>False\<close>.
\<close>

theorem finally_callback_never_runs:
  "fst (request this server meth url data options w) = Inl TypeError
   \<and> request this server meth url data (options\<lparr>finally_cb := g\<rparr>) w =
       request this server meth url data options w
   \<and> app (snd (request example_handler (\<lambda>k. Done (JObj [(''success'', JBool True)]))
        GET None Map.empty (no_options\<lparr>finally_cb := Some (\<lambda>st. (None, True))\<rparr>)
        \<lparr>events = [], console = [], app = False\<rparr>)) = False
   \<and> app (snd (request example_handler (\<lambda>k. Fail [])
        GET None Map.empty (no_options\<lparr>finally_cb := Some (\<lambda>st. (None, True))\<rparr>)
        \<lparr>events = [], console = [], app = False\<rparr>)) = False"
proof (intro conjI)
  show "fst (request this server meth url data options w) = Inl TypeError"
    by (simp add: request_unfold)
  show "request this server meth url data (options\<lparr>finally_cb := g\<rparr>) w =
       request this server meth url data options w"
    by (rule request_finally_cb)
  show "app (snd (request example_handler (\<lambda>k. Done (JObj [(''success'', JBool True)]))
        GET None Map.empty (no_options\<lparr>finally_cb := Some (\<lambda>st. (None, True))\<rparr>)
        \<lparr>events = [], console = [], app = False\<rparr>)) = False"
    by code_simp
  show "app (snd (request example_handler (\<lambda>k. Fail [])
        GET None Map.empty (no_options\<lparr>finally_cb := Some (\<lambda>st. (None, True))\<rparr>)
        \<lparr>events = [], console = [], app = False\<rparr>)) = False"
    by code_simp
qed

text \<open>
  C4 (as amended). When the response of attempt \<open>k\<close> is a well-formed envelope whose
  \<^verbatim>\<open>success\<close> is \<^verbatim>\<open>false\<close> and the success callback, if there is one, returns
  normally on it, no transport call follows the \<open>k\<close>-th: the call makes at most \<open>k\<close>
  transport calls, and when it makes the \<open>k\<close>-th, the trace ends with that call and the
  success callback on the envelope (no wait, no further attempt, no error callback). When
  the attempts before the \<open>k\<close>-th fail and the bound allows a \<open>k\<close>-th, the trace is the
  \<open>k\<close> calls with the delay between them and then the callback; for \<open>k = 1\<close> it is the
  one call and the callback.
\<close>

theorem semantic_failure_not_retried:
  fixes w :: "'s world"
  assumes "server k = Done response"
    and "get_prop response ''success'' = Inr (JBool False)"
    and "\<forall>f st. success options = Some f \<longrightarrow> fst (f response st) = None"
    and "1 \<le> k"
  shows "length (ajax_calls (new_events w (snd (request this server meth url data options w)))) \<le> k
       \<and> (k \<le> length (ajax_calls (new_events w (snd (request this server meth url data options w)))) \<longrightarrow>
            (\<exists>before. new_events w (snd (request this server meth url data options w)) =
                 before @ Ajax (settings this meth url data)
                   # (case success options of None \<Rightarrow> [] | Some f \<Rightarrow> [SuccessCb response])
               \<and> length (ajax_calls before) = k - 1))
       \<and> (k \<le> nat (max 1 (bound this options)) \<and> (\<forall>j. 1 \<le> j \<and> j < k \<longrightarrow> attempt_fails (server j)) \<longrightarrow>
            new_events w (snd (request this server meth url data options w)) =
              concat (replicate (k - 1)
                [Ajax (settings this meth url data), SetTimeout (wait this options)])
              @ Ajax (settings this meth url data)
                # (case success options of None \<Rightarrow> [] | Some f \<Rightarrow> [SuccessCb response]))
       \<and> (k = 1 \<longrightarrow>
            new_events w (snd (request this server meth url data options w)) =
              Ajax (settings this meth url data)
                # (case success options of None \<Rightarrow> [] | Some f \<Rightarrow> [SuccessCb response]))"
proof -
  have valid: "passes_validation response"
    using assms(2) valid_false[OF assms(2)] by (simp add: passes_validation_def)
  note stops = request_stops[where server=server and k=k and response=response and options=options
      and w=w and this=this and meth=meth and url=url and data=data, OF assms(1) valid assms(3,4)]
  note exact = request_fail_then_accept[where server=server and k=k and response=response
      and options=options and w=w and this=this and meth=meth and url=url and data=data,
      OF assms(1) valid assms(3,4)]
  have "new_events w (snd (request this server meth url data options w)) =
          Ajax (settings this meth url data)
            # (case success options of None \<Rightarrow> [] | Some f \<Rightarrow> [SuccessCb response])"
    if "k = 1"
    using exact that by simp
  with stops exact show ?thesis by blast
qed

text \<open>A network failure, then the envelope \<^verbatim>\<open>{success: false, message: "Invalid"}\<close>
  on the second attempt, with the bound 3.\<close>

theorem semantic_failure_not_retried_witness:
  "new_events example_world (snd (request example_handler
      (\<lambda>k. if k = 1 then Fail []
           else Done (JObj [(''success'', JBool False), (''message'', JStr ''Invalid'')]))
      POST None Map.empty
      (no_options\<lparr>success := Some (\<lambda>r st. (None, st))\<rparr>) example_world)) =
     [Ajax (settings example_handler POST None Map.empty), SetTimeout 500,
      Ajax (settings example_handler POST None Map.empty),
      SuccessCb (JObj [(''success'', JBool False), (''message'', JStr ''Invalid'')])]
   \<and> length (ajax_calls (new_events example_world (snd (request example_handler
      (\<lambda>k. if k = 1 then Fail []
           else Done (JObj [(''success'', JBool False), (''message'', JStr ''Invalid'')]))
      POST None Map.empty
      (no_options\<lparr>success := Some (\<lambda>r st. (None, st))\<rparr>) example_world)))) \<le> 2"
  using semantic_failure_not_retried[where k=2
      and server="\<lambda>k. if k = 1 then Fail []
           else Done (JObj [(''success'', JBool False), (''message'', JStr ''Invalid'')])"
      and response="JObj [(''success'', JBool False), (''message'', JStr ''Invalid'')]"
      and options="no_options\<lparr>success := Some (\<lambda>r st. (None, st))\<rparr>"
      and w=example_world and this=example_handler and meth=POST and url=None and data=Map.empty]
  by (simp add: no_options_def bound_def wait_def example_handler_def attempt_fails_def
        eval_nat_numeral)

text \<open>With a success callback that throws, the same envelope is fetched three times and
  handed to the callback three times.\<close>

theorem semantic_failure_retried_counterexample:
  "length (ajax_calls (new_events example_world (snd (request example_handler
      (\<lambda>k. Done (JObj [(''success'', JBool False)]))
      GET None Map.empty
      (no_options\<lparr>success := Some (\<lambda>r st. (Some (JStr ''boom''), st))\<rparr>) example_world)))) = 3
   \<and> success_calls (new_events example_world (snd (request example_handler
      (\<lambda>k. Done (JObj [(''success'', JBool False)]))
      GET None Map.empty
      (no_options\<lparr>success := Some (\<lambda>r st. (Some (JStr ''boom''), st))\<rparr>) example_world))) =
     [JObj [(''success'', JBool False)], JObj [(''success'', JBool False)],
      JObj [(''success'', JBool False)]]"
  by code_simp




text \<open>
  C6 (as amended). \<open>serializeForm\<close> returns a flat mapping from field name to string
  value in which, for every name but \<^verbatim>\<open>__proto__\<close>, the last field of the name wins: a
  key maps to the value of the last field that has it as its name, whatever comes before
  it, and the fields \<^verbatim>\<open>tag=a\<close>, \<^verbatim>\<open>tag=b\<close> give \<^verbatim>\<open>{tag: "b"}\<close>. The name
  \<^verbatim>\<open>__proto__\<close> never becomes a key.
\<close>

theorem serializeForm_last_wins:
  "serializeForm formArray k =
     (if k = ''__proto__'' then None else map_of (rev formArray) k)
   \<and> serializeForm (before @ [(k, v)] @ after) k =
       (if k = ''__proto__'' then None
        else case map_of (rev after) k of None \<Rightarrow> Some v | Some v' \<Rightarrow> Some v')
   \<and> serializeForm [(''tag'', ''a''), (''tag'', ''b'')] = [''tag'' \<mapsto> ''b'']"
proof -
  have a: "serializeForm xs k' = (if k' = ''__proto__'' then None else map_of (rev xs) k')" for xs k'
    by (simp add: serializeForm_def fold_assign split: option.splits)
  have b: "serializeForm [(''tag'', ''a''), (''tag'', ''b'')] = [''tag'' \<mapsto> ''b'']"
    by (rule ext) (simp add: a)
  show ?thesis
    by (simp add: a b map_add_def split: option.splits)
qed

text \<open>Two fields named \<^verbatim>\<open>__proto__\<close>, with the values \<^verbatim>\<open>a\<close> and \<^verbatim>\<open>b\<close>: the
  result has no key at all, where the last field winning would give the key the value
  \<^verbatim>\<open>b\<close>.\<close>

theorem serializeForm_drops_proto_counterexample:
  "serializeForm [(''__proto__'', ''a''), (''__proto__'', ''b'')] ''__proto__'' = None
   \<and> dom (serializeForm [(''__proto__'', ''a''), (''__proto__'', ''b'')]) = {}"
  by (simp add: serializeForm_def assign_def)

text \<open>
  C7 does not hold of the code. The submit handler passes its clean-up,
  \<^verbatim>\<open>UIHelper.hideLoading(target)\<close> and \<^verbatim>\<open>UIHelper.enableButton(...)\<close> (lines 209 to 212),
  to \<open>post\<close> as \<^verbatim>\<open>options.finally\<close>, and the script hides the loading marker and
  enables the button nowhere else. \<open>post\<close> goes through \<open>request\<close>, which throws at
  \<^verbatim>\<open>.finally\<close> and never runs that callback. So for every success, error and finally
  callback, when the first response is an envelope whose \<^verbatim>\<open>success\<close> is \<^verbatim>\<open>false\<close> and
  the success callback returns on it: \<open>post\<close> throws a \<^verbatim>\<open>TypeError\<close>, the transport is
  called once, the success callback receives the envelope (in the handler, this is where
  the toast is shown), and the state is the one the success callback leaves, on which the
  finally callback has not run.
\<close>

theorem post_never_runs_cleanup:
  fixes w :: "'s world"
  assumes "server 1 = Done response"
    and "get_prop response ''success'' = Inr (JBool False)"
    and "fst (f response (app w)) = None"
  shows "fst (post this server url (Some data)
            (Some \<lparr>retries = None, delay = None, success = Some f, error = Some g,
                   finally_cb = Some h\<rparr>) w) = Inl TypeError
       \<and> new_events w (snd (post this server url (Some data)
            (Some \<lparr>retries = None, delay = None, success = Some f, error = Some g,
                   finally_cb = Some h\<rparr>) w)) =
           [Ajax (settings this POST url data), SuccessCb response]
       \<and> app (snd (post this server url (Some data)
            (Some \<lparr>retries = None, delay = None, success = Some f, error = Some g,
                   finally_cb = Some h\<rparr>) w)) = snd (f response (app w))"
proof -
  let ?options = "\<lparr>retries = None, delay = None, success = Some f, error = Some g,
                   finally_cb = Some h\<rparr>"
  have valid: "passes_validation response"
    using assms(2) valid_false[OF assms(2)] by (simp add: passes_validation_def)
  have m: "makeRequest this server POST url data ?options (bound this ?options) (wait this ?options) 0 w =
     (Fulfilled response,
      (emit (SuccessCb response)
         (emit (Ajax (settings this POST url data))
            (console_log this (LogRequest POST url (Suc 0)) w)))
      \<lparr>app := snd (f response (app w))\<rparr>)"
    using makeRequest_fulfilled[where attempt=0 and server=server and response=response
        and options="?options" and w=w and this=this and meth=POST and url=url and data=data
        and n="bound this ?options" and d="wait this ?options"] assms(1,3) valid
    by simp
  have p: "post this server url (Some data) (Some ?options) w =
      request this server POST url data ?options w"
    by (simp add: post_def)
  have "events (snd (request this server POST url data ?options w)) =
      events w @ [Ajax (settings this POST url data), SuccessCb response]"
    unfolding request_events m by simp
  then have "new_events w (snd (request this server POST url data ?options w)) =
      [Ajax (settings this POST url data), SuccessCb response]"
    by (rule new_events_append)
  moreover have "app (snd (request this server POST url data ?options w)) = snd (f response (app w))"
    unfolding request_unfold m by simp
  moreover have "fst (request this server POST url data ?options w) = Inl TypeError"
    by (simp add: request_unfold)
  ultimately show ?thesis unfolding p by blast
qed

text \<open>The envelope \<^verbatim>\<open>{success: false, message: "Invalid"}\<close>, with callbacks that note
  their names in the state: after the set-up of the handler only the toast is noted.\<close>

theorem post_never_runs_cleanup_witness:
  "fst (post example_handler
      (\<lambda>k. Done (JObj [(''success'', JBool False), (''message'', JStr ''Invalid'')]))
      (Some ''/appointments/'') (Some [''tag'' \<mapsto> ''b''])
      (Some \<lparr>retries = None, delay = None,
             success = Some (\<lambda>r st. (None, st @ [''toast''])),
             error = Some (\<lambda>x s e st. (None, st @ [''error toast''])),
             finally_cb = Some (\<lambda>st. (None, st @ [''hideLoading'', ''enableButton'']))\<rparr>)
      \<lparr>events = [], console = [], app = [''showLoading'', ''disableButton'']\<rparr>) = Inl TypeError
   \<and> app (snd (post example_handler
      (\<lambda>k. Done (JObj [(''success'', JBool False), (''message'', JStr ''Invalid'')]))
      (Some ''/appointments/'') (Some [''tag'' \<mapsto> ''b''])
      (Some \<lparr>retries = None, delay = None,
             success = Some (\<lambda>r st. (None, st @ [''toast''])),
             error = Some (\<lambda>x s e st. (None, st @ [''error toast''])),
             finally_cb = Some (\<lambda>st. (None, st @ [''hideLoading'', ''enableButton'']))\<rparr>)
      \<lparr>events = [], console = [], app = [''showLoading'', ''disableButton'']\<rparr>)) =
     [''showLoading'', ''disableButton'', ''toast'']"
  using post_never_runs_cleanup[where this=example_handler
      and server="\<lambda>k. Done (JObj [(''success'', JBool False), (''message'', JStr ''Invalid'')])"
      and response="JObj [(''success'', JBool False), (''message'', JStr ''Invalid'')]"
      and url="Some ''/appointments/''" and data="[''tag'' \<mapsto> ''b'']"
      and f="\<lambda>r st. (None, st @ [''toast''])"
      and g="\<lambda>x s e st. (None, st @ [''error toast''])"
      and h="\<lambda>st. (None, st @ [''hideLoading'', ''enableButton''])"
      and w="\<lparr>events = [], console = [], app = [''showLoading'', ''disableButton'']\<rparr>"]
  by simp

text \<open>
  C8 does not hold of the code. \<open>getCsrfToken\<close> decodes the whole cookie string before it
  splits it at the semicolons, so an escaped semicolon inside the value of another
  cookie starts a new piece. The store below holds the single cookie \<^verbatim>\<open>q\<close>, whose value
  is \<^verbatim>\<open>encodeURIComponent("x; csrftoken=evil")\<close>, and no cookie named \<^verbatim>\<open>csrftoken\<close>:
  the handler built there has the token \<^verbatim>\<open>evil\<close>, not the empty string, and that is the
  header of its requests. In the second store, again without a \<^verbatim>\<open>csrftoken\<close> cookie, a
  value ends in a percent sign: \<^verbatim>\<open>decodeURIComponent\<close> throws, so does the constructor,
  and there is no handler to send a request.
\<close>

theorem csrf_token_from_another_cookie:
  "map_of [(''q'', ''x%3B%20csrftoken%3Devil'')] ''csrftoken'' = None
   \<and> render_cookies [(''q'', ''x%3B%20csrftoken%3Devil'')] = ''q=x%3B%20csrftoken%3Devil''
   \<and> decodeURIComponent ''q=x%3B%20csrftoken%3Devil'' = Inr ''q=x; csrftoken=evil''
   \<and> new_AjaxHandler None ''q=x%3B%20csrftoken%3Devil'' = Inr (example_handler\<lparr>csrfToken := ''evil''\<rparr>)
   \<and> s_headers (settings (example_handler\<lparr>csrfToken := ''evil''\<rparr>) GET None Map.empty) =
        [(''X-CSRFToken'', ''evil'')]
   \<and> map_of [(''discount'', ''100%'')] ''csrftoken'' = None
   \<and> new_AjaxHandler None ''discount=100%'' = Inl URIError"
  by code_simp

text \<open>
  C9. The transport calls and timer waits of a call to \<open>request\<close> alternate, every wait
  being the delay the call runs with (\<^verbatim>\<open>options.delay\<close>, else the handler's default):
  the same delay before every retry. A handler built with no options, or with options
  that set neither default, has the bound 3 and the delay 500, and a call on it without
  overrides whose transport always fails makes three calls with a wait of 500 between
  them.
\<close>

theorem fixed_delay_between_attempts:
  fixes w :: "'s world" and w' :: "'s world"
  assumes "given = None \<or> given = Some no_handler_options"
    and "new_AjaxHandler given cookie = Inr h"
  shows "(\<exists>k < nat (max 1 (bound this options)).
           net_events (new_events w (snd (request this server meth url data options w))) =
             concat (replicate k [Ajax (settings this meth url data), SetTimeout (wait this options)])
             @ [Ajax (settings this meth url data)])
       \<and> defaultRetries h = 3 \<and> defaultDelay h = 500
       \<and> bound h (no_options :: 's request_options) = 3
       \<and> wait h (no_options :: 's request_options) = 500
       \<and> net_events (new_events w' (snd (request h (\<lambda>k. Fail args) meth' url' data' no_options w'))) =
           [Ajax (settings h meth' url' data'), SetTimeout 500,
            Ajax (settings h meth' url' data'), SetTimeout 500,
            Ajax (settings h meth' url' data')]"
proof -
  from assms have c: "defaultRetries h = 3" "defaultDelay h = 500"
    by (auto simp: new_AjaxHandler_def no_handler_options_def Let_def split: sum.splits)
  then have d: "bound h (no_options :: 's request_options) = 3"
    "wait h (no_options :: 's request_options) = 500"
    by (simp_all add: bound_def wait_def no_options_def)
  have "\<forall>k. 1 \<le> k \<and> k \<le> nat (max 1 (bound h (no_options :: 's request_options)))
          \<longrightarrow> attempt_fails ((\<lambda>k. Fail args) k)"
    by (simp add: attempt_fails_def)
  from request_all_fail(1)[OF this, where w=w' and meth=meth' and url=url' and data=data']
  have "new_events w' (snd (request h (\<lambda>k. Fail args) meth' url' data' no_options w')) =
           concat (replicate (nat (max 1 3) - 1)
             [Ajax (settings h meth' url' data'), SetTimeout 500])
           @ [Ajax (settings h meth' url' data')]"
    unfolding d by (simp add: no_options_def)
  then have "net_events (new_events w' (snd (request h (\<lambda>k. Fail args) meth' url' data' no_options w'))) =
           [Ajax (settings h meth' url' data'), SetTimeout 500,
            Ajax (settings h meth' url' data'), SetTimeout 500,
            Ajax (settings h meth' url' data')]"
    by (simp add: eval_nat_numeral)
  with c d request_net[where this=this and options=options and w=w and server=server and meth=meth and url=url and data=data]
  show ?thesis by blast
qed

text \<open>The handler \<^verbatim>\<open>new AjaxHandler()\<close> builds, on a transport that always fails.\<close>

theorem fixed_delay_between_attempts_witness:
  "bound example_handler (no_options :: unit request_options) = 3
   \<and> wait example_handler (no_options :: unit request_options) = 500
   \<and> net_events (new_events example_world
        (snd (request example_handler (\<lambda>k. Fail []) GET None Map.empty no_options example_world))) =
       [Ajax (settings example_handler GET None Map.empty), SetTimeout 500,
        Ajax (settings example_handler GET None Map.empty), SetTimeout 500,
        Ajax (settings example_handler GET None Map.empty)]"
  using fixed_delay_between_attempts[where given=None and cookie="''sessionid=1; csrftoken=abc''"
          and h=example_handler and w'=example_world and args="[]" and meth'=GET and url'=None
          and data'=Map.empty and this=example_handler and options=no_options and w=example_world
          and server="\<lambda>k. Fail []" and meth=GET and url=None and data=Map.empty,
          OF _ example_handler_built]
  by simp

text \<open>
  C10 (as amended). The success callback runs exactly on the responses that pass the
  validation, once for each of them in the order of the attempts, and never on a failed
  or malformed attempt. When it returns normally on every response of the server that
  passes the validation, it runs at most once in the whole call.
\<close>

theorem success_callback_calls:
  fixes w :: "'s world"
  shows "(\<forall>r \<in> set (success_calls (new_events w (snd (request this server meth url data options w)))).
            \<exists>k. 1 \<le> k \<and> k \<le> nat (max 1 (bound this options)) \<and> server k = Done r \<and> passes_validation r)
       \<and> length (success_calls (new_events w (snd (request this server meth url data options w))))
           \<le> length (ajax_calls (new_events w (snd (request this server meth url data options w))))
       \<and> success_calls (new_events w (snd (request this server meth url data options w))) =
           (if success options = None then []
            else accepted server 0
                   (length (ajax_calls (new_events w (snd (request this server meth url data options w))))))
       \<and> (returns_when_accepted server options \<longrightarrow>
            length (success_calls (new_events w (snd (request this server meth url data options w)))) \<le> 1)"
  using request_success_calls[where w=w and this=this and server=server and meth=meth and url=url
          and data=data and options=options]
        request_success_once[where w=w and this=this and server=server and meth=meth and url=url
          and data=data and options=options]
  by blast

text \<open>Two \<^verbatim>\<open>null\<close> bodies and then a well-formed envelope: one run, on the envelope.\<close>

theorem success_callback_calls_witness:
  "length (success_calls (new_events example_world (snd (request example_handler
      (\<lambda>k. if k < 3 then Done JNull else Done (JObj [(''success'', JBool True)]))
      GET None Map.empty (no_options\<lparr>success := Some (\<lambda>r st. (None, st))\<rparr>) example_world)))) \<le> 1
   \<and> success_calls (new_events example_world (snd (request example_handler
      (\<lambda>k. if k < 3 then Done JNull else Done (JObj [(''success'', JBool True)]))
      GET None Map.empty (no_options\<lparr>success := Some (\<lambda>r st. (None, st))\<rparr>) example_world)))
     = [JObj [(''success'', JBool True)]]"
proof -
  have e: "success_calls (new_events example_world (snd (request example_handler
      (\<lambda>k. if k < 3 then Done JNull else Done (JObj [(''success'', JBool True)]))
      GET None Map.empty (no_options\<lparr>success := Some (\<lambda>r st. (None, st))\<rparr>) example_world)))
     = [JObj [(''success'', JBool True)]]"
    by code_simp
  have "returns_when_accepted
      (\<lambda>k. if k < 3 then Done JNull else Done (JObj [(''success'', JBool True)]))
      (no_options\<lparr>success := Some (\<lambda>r st. (None, st))\<rparr> :: unit request_options)"
    by (simp add: returns_when_accepted_def no_options_def)
  with success_callback_calls[where w=example_world and this=example_handler
      and server="\<lambda>k. if k < 3 then Done JNull else Done (JObj [(''success'', JBool True)])"
      and meth=GET and url=None and data=Map.empty
      and options="no_options\<lparr>success := Some (\<lambda>r st. (None, st))\<rparr>"]
  have "length (success_calls (new_events example_world (snd (request example_handler
      (\<lambda>k. if k < 3 then Done JNull else Done (JObj [(''success'', JBool True)]))
      GET None Map.empty (no_options\<lparr>success := Some (\<lambda>r st. (None, st))\<rparr>) example_world)))) \<le> 1"
    by blast
  with e show ?thesis by blast
qed

text \<open>A success callback that throws makes its attempt a failed one, which is retried:
  with the bound 2 it runs twice.\<close>

theorem success_callback_twice_counterexample:
  "length (success_calls (new_events example_world (snd (request example_handler
      (\<lambda>k. Done (JObj [(''success'', JBool True)]))
      GET None Map.empty
      (no_options\<lparr>retries := Some 2, success := Some (\<lambda>r st. (Some (JStr ''boom''), st))\<rparr>)
      example_world)))) = 2"
  by code_simp

end
